theory Spec2Isabelle
  imports Complex_Main "HOL-Library.Multiset" "HOL-Library.Monad_Syntax"
begin

section \<open>Numbers of the C++ program\<close>

text \<open>
  The helper library computes with \<^verbatim>\<open>double\<close> and \<^verbatim>\<open>int\<close>.

  A \<^verbatim>\<open>double\<close> is modelled as a \<^typ>\<open>real\<close>: arithmetic is exact, there is no
  rounding, no NaN and no infinity among the inputs. The one way in which the code under
  study could leave the finite numbers is a division by zero, so division is the checked
  operation \<open>fdiv\<close>: it has no result when the divisor is zero. Functions that divide
  return an \<open>option\<close>; \<open>None\<close> means that the C++ execution has left the model (a
  division by zero, or a read past the end of a vector). The threshold that the
  orchestrator derives from the class means is the one value whose rounding decides a
  comparison; it is modelled a second time, with rounding, in its own section.

  An \<^verbatim>\<open>int\<close> is a 32-bit two's complement integer. It is modelled as an \<^typ>\<open>int\<close>
  in the range \<open>- 2^31 .. 2^31 - 1\<close>, and every addition is followed by \<open>wrap32\<close>.
  (Signed overflow is undefined in C++; the wrap-around written here is what the usual
  compilers produce.)
\<close>

definition DBL_MAX :: real where
  \<comment> \<open>\<^verbatim>\<open>numeric_limits<double>::max()\<close>\<close>
  "DBL_MAX = 2 ^ 1024 - 2 ^ 971"

definition INT_MAX :: int where
  "INT_MAX = 2147483647"

definition wrap32 :: "int \<Rightarrow> int" where
  "wrap32 x = (x + 2147483648) mod 4294967296 - 2147483648"

definition int_add :: "int \<Rightarrow> int \<Rightarrow> int" where
  "int_add a b = wrap32 (a + b)"

definition fdiv :: "real \<Rightarrow> real \<Rightarrow> real option" where
  "fdiv a b = (if b = 0 then None else Some (a / b))"

section \<open>Confusion matrix: \<^verbatim>\<open>calculateConfusionMatrix\<close>\<close>

text \<open>
  The tuple \<open>(TP, FP, TN, FN)\<close> of the four local counters. The loop body classifies one
  sample; the chain of \<^verbatim>\<open>if / else if\<close> is kept as it is written.
\<close>

type_synonym confusion = "int \<times> int \<times> int \<times> int"

definition tally :: "real \<Rightarrow> bool \<Rightarrow> real \<Rightarrow> confusion \<Rightarrow> confusion" where
  "tally score label threshold c =
     (case c of (truePositives, falsePositives, trueNegatives, falseNegatives) \<Rightarrow>
        let predictedAnomaly = (score > threshold);
            isAnomaly = label
        in if isAnomaly \<and> predictedAnomaly
             then (int_add truePositives 1, falsePositives, trueNegatives, falseNegatives)
           else if \<not> isAnomaly \<and> predictedAnomaly
             then (truePositives, int_add falsePositives 1, trueNegatives, falseNegatives)
           else if \<not> isAnomaly \<and> \<not> predictedAnomaly
             then (truePositives, falsePositives, int_add trueNegatives 1, falseNegatives)
           else if isAnomaly \<and> \<not> predictedAnomaly
             then (truePositives, falsePositives, trueNegatives, int_add falseNegatives 1)
           else c)"

text \<open>
  The loop runs over the indices of \<open>scores\<close> and reads \<open>labels[i]\<close> unchecked: when
  \<open>labels\<close> is the shorter vector the read is out of range (\<open>None\<close>); surplus labels
  are never looked at.
\<close>

fun confusion_loop :: "real list \<Rightarrow> bool list \<Rightarrow> real \<Rightarrow> confusion \<Rightarrow> confusion option" where
  "confusion_loop [] labels threshold c = Some c"
| "confusion_loop (score # scores) [] threshold c = None"
| "confusion_loop (score # scores) (label # labels) threshold c =
     confusion_loop scores labels threshold (tally score label threshold c)"

definition calculateConfusionMatrix :: "real list \<Rightarrow> bool list \<Rightarrow> real \<Rightarrow> confusion option" where
  "calculateConfusionMatrix scores labels threshold =
     confusion_loop scores labels threshold (0, 0, 0, 0)"

section \<open>Metrics: \<^verbatim>\<open>calculateMetrics\<close>\<close>

text \<open>
  The result is a \<^verbatim>\<open>map<string, double>\<close>. Sums of counters are \<^verbatim>\<open>int\<close> sums,
  converted to \<^verbatim>\<open>double\<close> afterwards, as in the source.
\<close>

definition calculateMetrics :: "confusion \<Rightarrow> (string \<rightharpoonup> real) option" where
  "calculateMetrics confusionMatrix =
     (case confusionMatrix of (tp, fp, tn, fn) \<Rightarrow>
        do {
          let total = real_of_int (int_add (int_add (int_add tp fp) tn) fn);
          accuracy \<leftarrow> (if total > 0 then fdiv (real_of_int (int_add tp tn)) total else Some 0);
          precision \<leftarrow> (if int_add tp fp > 0
                          then fdiv (real_of_int tp) (real_of_int (int_add tp fp)) else Some 0);
          recall \<leftarrow> (if int_add tp fn > 0
                       then fdiv (real_of_int tp) (real_of_int (int_add tp fn)) else Some 0);
          specificity \<leftarrow> (if int_add tn fp > 0
                            then fdiv (real_of_int tn) (real_of_int (int_add tn fp)) else Some 0);
          f1_score \<leftarrow> (if precision + recall > 0
                         then fdiv (2 * precision * recall) (precision + recall) else Some 0);
          Some [''true_positives'' \<mapsto> real_of_int tp,
                ''false_positives'' \<mapsto> real_of_int fp,
                ''true_negatives'' \<mapsto> real_of_int tn,
                ''false_negatives'' \<mapsto> real_of_int fn,
                ''accuracy'' \<mapsto> accuracy,
                ''precision'' \<mapsto> precision,
                ''recall'' \<mapsto> recall,
                ''specificity'' \<mapsto> specificity,
                ''f1_score'' \<mapsto> f1_score]
        })"

section \<open>ROC curve and AUC: \<^verbatim>\<open>saveRocDataToCSV\<close>\<close>

text \<open>
  What the function leaves behind besides its return value: the lines it writes to
  \<^verbatim>\<open>cerr\<close> and the rows \<open>(threshold, fpr, tpr)\<close> of the CSV file. Whether the output
  file can be opened is decided outside the program; it is the parameter \<open>file_opens\<close>.
  The progress lines on \<^verbatim>\<open>cout\<close> are not modelled.
\<close>

datatype message = InvalidInput | MissingClass | CannotOpenFile

type_synonym roc_row = "real \<times> real \<times> real"

record roc_outcome =
  returned :: real
  csv_rows :: "roc_row list option"
  cerr :: "message list"

text \<open>
  \<^verbatim>\<open>std::sort\<close> with the comparator \<open>a.first > b.first\<close>: the pairs in descending order
  of score. The order among equal scores is not specified by \<^verbatim>\<open>std::sort\<close>; the model
  keeps their input order.
\<close>

definition sort_descending :: "(real \<times> bool) list \<Rightarrow> (real \<times> bool) list" where
  "sort_descending pairs = sort_key (\<lambda>p. - fst p) pairs"

fun count_classes :: "(real \<times> bool) list \<Rightarrow> real \<times> real \<Rightarrow> real \<times> real" where
  "count_classes [] totals = totals"
| "count_classes ((score, label) # rest) (total_positives, total_negatives) =
     count_classes rest
       (if label then (total_positives + 1, total_negatives)
        else (total_positives, total_negatives + 1))"

text \<open>The local variables of the sweep, and the three vectors that hold the curve.\<close>

record roc_state =
  true_positives :: real
  false_positives :: real
  prev_score :: real
  fpr :: "real list"
  tpr :: "real list"
  thresholds :: "real list"

definition push_point :: "real \<Rightarrow> real \<Rightarrow> roc_state \<Rightarrow> roc_state option" where
  "push_point total_positives total_negatives s =
     do {
       f \<leftarrow> fdiv (false_positives s) total_negatives;
       t \<leftarrow> fdiv (true_positives s) total_positives;
       Some (s\<lparr>fpr := fpr s @ [f], tpr := tpr s @ [t],
                thresholds := thresholds s @ [prev_score s]\<rparr>)
     }"

definition count_sample :: "bool \<Rightarrow> roc_state \<Rightarrow> roc_state" where
  "count_sample label s =
     (if label then s\<lparr>true_positives := true_positives s + 1\<rparr>
      else s\<lparr>false_positives := false_positives s + 1\<rparr>)"

fun sweep :: "real \<Rightarrow> real \<Rightarrow> (real \<times> bool) list \<Rightarrow> roc_state \<Rightarrow> roc_state option" where
  "sweep total_positives total_negatives [] s = Some s"
| "sweep total_positives total_negatives ((score, label) # rest) s =
     (if score \<noteq> prev_score s then
        (case push_point total_positives total_negatives s of
           None \<Rightarrow> None
         | Some s' \<Rightarrow>
             sweep total_positives total_negatives rest
               (count_sample label (s'\<lparr>prev_score := score\<rparr>)))
      else sweep total_positives total_negatives rest (count_sample label s))"

definition initial_state :: roc_state where
  "initial_state =
     \<lparr>true_positives = 0, false_positives = 0, prev_score = DBL_MAX,
      fpr = [0], tpr = [0], thresholds = [DBL_MAX]\<rparr>"

text \<open>
  The trapezoidal loop, from index 1. \<open>fpr[i]\<close> and \<open>fpr[i-1]\<close> are in range by the
  loop condition; \<open>tpr[i]\<close> is read unchecked.
\<close>

function auc_loop :: "real list \<Rightarrow> real list \<Rightarrow> nat \<Rightarrow> real \<Rightarrow> real option" where
  "auc_loop fs ts i auc =
     (if i < length fs then
        (if i < length ts then
           auc_loop fs ts (i + 1)
             (auc + (fs ! i - fs ! (i - 1)) * (ts ! i + ts ! (i - 1)) / 2)
         else None)
      else Some auc)"
  by pat_completeness auto
termination
  by (relation "measure (\<lambda>(fs, ts, i, auc). length fs - i)") auto

declare auc_loop.simps [simp del]

text \<open>The loop that writes the data rows; \<open>out\<close> is the file written so far.\<close>

function write_rows ::
  "real list \<Rightarrow> real list \<Rightarrow> real list \<Rightarrow> nat \<Rightarrow> roc_row list \<Rightarrow> roc_row list option" where
  "write_rows ths fs ts i out =
     (if i < length fs then
        (if i < length ths then
           (if i < length ts then
              write_rows ths fs ts (i + 1) (out @ [(ths ! i, fs ! i, ts ! i)])
            else None)
         else write_rows ths fs ts (i + 1) out)
      else Some out)"
  by pat_completeness auto
termination
  by (relation "measure (\<lambda>(ths, fs, ts, i, out). length fs - i)") auto

declare write_rows.simps [simp del]

text \<open>
  Lines 57 to 106 of the source: pairing, sorting, counting the classes and the sweep.
  The result is \<open>Inl\<close> the message when a class is missing, else the final state with the
  three vectors. The sorting routine is a parameter of \<open>roc_curve_with\<close>, so that the
  choice made for equal scores can be varied; \<open>roc_curve\<close> is the function with the
  sort fixed above.
\<close>

definition roc_curve_with ::
  "((real \<times> bool) list \<Rightarrow> (real \<times> bool) list) \<Rightarrow> real list \<Rightarrow> bool list
     \<Rightarrow> (message + roc_state) option" where
  "roc_curve_with sort_pairs scores labels =
     (let score_label_pairs = sort_pairs (zip scores labels);
          (total_positives, total_negatives) = count_classes score_label_pairs (0, 0)
      in if total_positives = 0 \<or> total_negatives = 0 then Some (Inl MissingClass)
         else do {
           s \<leftarrow> sweep total_positives total_negatives score_label_pairs initial_state;
           s' \<leftarrow> push_point total_positives total_negatives s;
           Some (Inr s')
         })"

definition roc_curve :: "real list \<Rightarrow> bool list \<Rightarrow> (message + roc_state) option" where
  "roc_curve scores labels = roc_curve_with sort_descending scores labels"

definition saveRocDataToCSV :: "bool \<Rightarrow> real list \<Rightarrow> bool list \<Rightarrow> roc_outcome option" where
  "saveRocDataToCSV file_opens scores labels =
     (if length scores \<noteq> length labels \<or> scores = [] then
        Some \<lparr>returned = 0, csv_rows = None, cerr = [InvalidInput]\<rparr>
      else do {
        curve \<leftarrow> roc_curve scores labels;
        (case curve of
           Inl msg \<Rightarrow> Some \<lparr>returned = 0, csv_rows = None, cerr = [msg]\<rparr>
         | Inr s \<Rightarrow> do {
             auc \<leftarrow> auc_loop (fpr s) (tpr s) 1 0;
             if \<not> file_opens then
               Some \<lparr>returned = auc, csv_rows = None, cerr = [CannotOpenFile]\<rparr>
             else do {
               rows \<leftarrow> write_rows (thresholds s) (fpr s) (tpr s) 0 [];
               Some \<lparr>returned = auc, csv_rows = Some rows, cerr = []\<rparr>
             }
           })
      })"

section \<open>The orchestrator: \<^verbatim>\<open>evaluateAlgorithm\<close>\<close>

text \<open>
  The loop that accumulates, for each class, the sum of the scores and the number of
  samples. It runs after the length check, on the indices of \<open>scores\<close>.
\<close>

fun class_sums ::
  "real list \<Rightarrow> bool list \<Rightarrow> real \<times> int \<times> real \<times> int \<Rightarrow> (real \<times> int \<times> real \<times> int) option" where
  "class_sums [] labels acc = Some acc"
| "class_sums (score # scores) [] acc = None"
| "class_sums (score # scores) (label # labels)
       (avgPositiveScore, posCount, avgNegativeScore, negCount) =
     class_sums scores labels
       (if label then (avgPositiveScore + score, int_add posCount 1, avgNegativeScore, negCount)
        else (avgPositiveScore, posCount, avgNegativeScore + score, int_add negCount 1))"

definition derive_threshold :: "real list \<Rightarrow> bool list \<Rightarrow> real option" where
  "derive_threshold scores labels =
     do {
       (avgPositiveScore, posCount, avgNegativeScore, negCount) \<leftarrow>
         class_sums scores labels (0, 0, 0, 0);
       avgPositiveScore \<leftarrow>
         (if posCount > 0 then fdiv avgPositiveScore (real_of_int posCount)
          else Some avgPositiveScore);
       avgNegativeScore \<leftarrow>
         (if negCount > 0 then fdiv avgNegativeScore (real_of_int negCount)
          else Some avgNegativeScore);
       Some ((avgPositiveScore + avgNegativeScore) / 2)
     }"

text \<open>
  The returned map, the outcome of the ROC stage when it was called, and the lines the
  orchestrator itself writes to \<^verbatim>\<open>cerr\<close>. The printed summary is not modelled.
\<close>

record evaluation =
  results :: "string \<rightharpoonup> real"
  roc_stage :: "roc_outcome option"
  eval_cerr :: "message list"

definition evaluateAlgorithm ::
  "bool \<Rightarrow> real list \<Rightarrow> bool list \<Rightarrow> real \<Rightarrow> evaluation option" where
  "evaluateAlgorithm file_opens scores labels threshold =
     (if length scores \<noteq> length labels \<or> scores = [] then
        Some \<lparr>results = [''error'' \<mapsto> 1], roc_stage = None, eval_cerr = [InvalidInput]\<rparr>
      else do {
        threshold \<leftarrow> (if threshold < 0 then derive_threshold scores labels else Some threshold);
        confMat \<leftarrow> calculateConfusionMatrix scores labels threshold;
        metrics \<leftarrow> calculateMetrics confMat;
        roc \<leftarrow> saveRocDataToCSV file_opens scores labels;
        Some \<lparr>results = metrics(''threshold'' \<mapsto> threshold, ''auc'' \<mapsto> returned roc),
              roc_stage = Some roc, eval_cerr = []\<rparr>
      })"

section \<open>The derived threshold in \<^verbatim>\<open>double\<close> arithmetic\<close>

text \<open>
  The threshold that \<open>evaluateAlgorithm\<close> derives from the class means is compared with
  the scores, so a rounding error in it can move a sample from one bucket to another.
  For this part of the orchestrator the arithmetic of \<^verbatim>\<open>double\<close> is therefore kept.
  An operation of IEEE arithmetic on finite operands returns the exact result rounded
  to a \<^verbatim>\<open>double\<close>, or an infinity when the exact result is beyond the range. The
  rounding is the parameter \<open>fl\<close>: \<open>fl x\<close> is the \<^verbatim>\<open>double\<close> for the exact result
  \<open>x\<close>, and \<open>None\<close> when that is not a finite number.

  The counters \<open>posCount\<close> and \<open>negCount\<close> are incremented once per sample. An
  increment past \<open>INT_MAX\<close> is undefined behaviour, and what a build does with the guard
  \<open>posCount > 0\<close> after it depends on the compiler; here it has no result (\<open>None\<close>).
  As before, \<open>None\<close> is also a read past the end of \<open>labels\<close>.
\<close>

definition incr :: "int \<Rightarrow> int option" where
  "incr c = (if c < INT_MAX then Some (c + 1) else None)"

definition fl_div :: "(real \<Rightarrow> real option) \<Rightarrow> real \<Rightarrow> real \<Rightarrow> real option" where
  "fl_div fl a b = (if b = 0 then None else fl (a / b))"

fun class_sums_fl ::
  "(real \<Rightarrow> real option) \<Rightarrow> real list \<Rightarrow> bool list \<Rightarrow> real \<times> int \<times> real \<times> int
     \<Rightarrow> (real \<times> int \<times> real \<times> int) option" where
  "class_sums_fl fl [] labels acc = Some acc"
| "class_sums_fl fl (score # scores) [] acc = None"
| "class_sums_fl fl (score # scores) (label # labels)
       (avgPositiveScore, posCount, avgNegativeScore, negCount) =
     (if label then
        do {
          avgPositiveScore \<leftarrow> fl (avgPositiveScore + score);
          posCount \<leftarrow> incr posCount;
          class_sums_fl fl scores labels (avgPositiveScore, posCount, avgNegativeScore, negCount)
        }
      else
        do {
          avgNegativeScore \<leftarrow> fl (avgNegativeScore + score);
          negCount \<leftarrow> incr negCount;
          class_sums_fl fl scores labels (avgPositiveScore, posCount, avgNegativeScore, negCount)
        })"

definition derive_threshold_fl :: "(real \<Rightarrow> real option) \<Rightarrow> real list \<Rightarrow> bool list \<Rightarrow> real option" where
  "derive_threshold_fl fl scores labels =
     do {
       (avgPositiveScore, posCount, avgNegativeScore, negCount) \<leftarrow>
         class_sums_fl fl scores labels (0, 0, 0, 0);
       avgPositiveScore \<leftarrow>
         (if posCount > 0 then fl_div fl avgPositiveScore (real_of_int posCount)
          else Some avgPositiveScore);
       avgNegativeScore \<leftarrow>
         (if negCount > 0 then fl_div fl avgNegativeScore (real_of_int negCount)
          else Some avgNegativeScore);
       sum \<leftarrow> fl (avgPositiveScore + avgNegativeScore);
       fl_div fl sum 2
     }"

text \<open>
  The orchestrator with the threshold derived in this arithmetic. The confusion matrix,
  the metrics and the ROC stage are the functions above. With a rounding that returns
  every exact result, and while no counter passes \<open>INT_MAX\<close>, this is
  \<open>evaluateAlgorithm\<close>.
\<close>

definition evaluateAlgorithm_fl ::
  "(real \<Rightarrow> real option) \<Rightarrow> bool \<Rightarrow> real list \<Rightarrow> bool list \<Rightarrow> real \<Rightarrow> evaluation option" where
  "evaluateAlgorithm_fl fl file_opens scores labels threshold =
     (if length scores \<noteq> length labels \<or> scores = [] then
        Some \<lparr>results = [''error'' \<mapsto> 1], roc_stage = None, eval_cerr = [InvalidInput]\<rparr>
      else do {
        threshold \<leftarrow>
          (if threshold < 0 then derive_threshold_fl fl scores labels else Some threshold);
        confMat \<leftarrow> calculateConfusionMatrix scores labels threshold;
        metrics \<leftarrow> calculateMetrics confMat;
        roc \<leftarrow> saveRocDataToCSV file_opens scores labels;
        Some \<lparr>results = metrics(''threshold'' \<mapsto> threshold, ''auc'' \<mapsto> returned roc),
              roc_stage = Some roc, eval_cerr = []\<rparr>
      })"

section \<open>Notions used to state the properties\<close>

text \<open>
  The number of samples, among the first \<open>min (length scores) (length labels)\<close>, whose
  score and label satisfy a condition.
\<close>

definition count_samples :: "(real \<Rightarrow> bool \<Rightarrow> bool) \<Rightarrow> real list \<Rightarrow> bool list \<Rightarrow> int" where
  "count_samples C scores labels =
     int (length (filter (\<lambda>(score, label). C score label) (zip scores labels)))"

text \<open>The number of labels of one class.\<close>

definition count_label :: "bool \<Rightarrow> bool list \<Rightarrow> int" where
  "count_label c labels = int (length (filter (\<lambda>label. label = c) labels))"

text \<open>The guarded quotient of the metric formulas: \<open>num / den\<close> if \<open>den > 0\<close>, else \<open>0\<close>.\<close>

definition guarded_ratio :: "real \<Rightarrow> real \<Rightarrow> real" where
  "guarded_ratio num den = (if den > 0 then num / den else 0)"

text \<open>The numbers of positive and of negative samples in a list of pairs.\<close>

definition npos :: "(real \<times> bool) list \<Rightarrow> real" where
  "npos pairs = real (length (filter snd pairs))"

definition nneg :: "(real \<times> bool) list \<Rightarrow> real" where
  "nneg pairs = real (length (filter (\<lambda>p. \<not> snd p) pairs))"

text \<open>
  The rows that the sweep appends while it walks over \<open>pairs\<close>, starting with the
  counters \<open>tp\<close>, \<open>fp\<close> and the previous score \<open>prev\<close>: one row at each pair whose
  score differs from the previous score, holding that previous score and the rates
  reached before the pair.
\<close>

fun emitted :: "real \<Rightarrow> real \<Rightarrow> (real \<times> bool) list \<Rightarrow> real \<Rightarrow> real \<Rightarrow> real \<Rightarrow> roc_row list" where
  "emitted P N [] tp fp prev = []"
| "emitted P N ((score, label) # rest) tp fp prev =
     (if score \<noteq> prev
      then (prev, fp / N, tp / P)
             # emitted P N rest (if label then tp + 1 else tp) (if label then fp else fp + 1) score
      else emitted P N rest (if label then tp + 1 else tp) (if label then fp else fp + 1) prev)"

text \<open>The columns of a row.\<close>

definition row_threshold :: "roc_row \<Rightarrow> real" where
  "row_threshold r = fst r"

definition row_fpr :: "roc_row \<Rightarrow> real" where
  "row_fpr r = fst (snd r)"

definition row_tpr :: "roc_row \<Rightarrow> real" where
  "row_tpr r = snd (snd r)"

text \<open>
  The trapezoidal sum over consecutive rows:
  \<open>\<Sum> (fpr[i] - fpr[i-1]) * (tpr[i] + tpr[i-1]) / 2\<close>.
\<close>

definition trapezoidal_sum :: "roc_row list \<Rightarrow> real" where
  "trapezoidal_sum rows =
     (\<Sum>i = 1..<length rows.
        (row_fpr (rows ! i) - row_fpr (rows ! (i - 1)))
          * (row_tpr (rows ! i) + row_tpr (rows ! (i - 1))) / 2)"

text \<open>
  The scores of the samples of one class, their mean (\<open>0\<close> when the class is empty),
  and the midpoint of the two class means, as real numbers.
\<close>

definition class_scores :: "bool \<Rightarrow> real list \<Rightarrow> bool list \<Rightarrow> real list" where
  "class_scores c scores labels = map fst (filter (\<lambda>p. snd p = c) (zip scores labels))"

definition class_mean :: "bool \<Rightarrow> real list \<Rightarrow> bool list \<Rightarrow> real" where
  "class_mean c scores labels =
     (let xs = class_scores c scores labels
      in if xs = [] then 0 else sum_list xs / real (length xs))"

definition midpoint_of_means :: "real list \<Rightarrow> bool list \<Rightarrow> real" where
  "midpoint_of_means scores labels =
     (class_mean True scores labels + class_mean False scores labels) / 2"

text \<open>
  The same means and midpoint as \<^verbatim>\<open>double\<close> arithmetic gives them: the scores of a
  class are added one by one in input order, starting from \<open>0\<close>, and every sum, each
  mean and the midpoint are rounded by \<open>fl\<close>.
\<close>

fun fl_sum :: "(real \<Rightarrow> real option) \<Rightarrow> real \<Rightarrow> real list \<Rightarrow> real option" where
  "fl_sum fl acc [] = Some acc"
| "fl_sum fl acc (x # xs) = do { acc' \<leftarrow> fl (acc + x); fl_sum fl acc' xs }"

definition fl_class_mean ::
  "(real \<Rightarrow> real option) \<Rightarrow> bool \<Rightarrow> real list \<Rightarrow> bool list \<Rightarrow> real option" where
  "fl_class_mean fl c scores labels =
     (let xs = class_scores c scores labels
      in if xs = [] then Some 0
         else do { total \<leftarrow> fl_sum fl 0 xs; fl (total / real (length xs)) })"

definition fl_midpoint_of_means ::
  "(real \<Rightarrow> real option) \<Rightarrow> real list \<Rightarrow> bool list \<Rightarrow> real option" where
  "fl_midpoint_of_means fl scores labels =
     do {
       meanPositive \<leftarrow> fl_class_mean fl True scores labels;
       meanNegative \<leftarrow> fl_class_mean fl False scores labels;
       sum \<leftarrow> fl (meanPositive + meanNegative);
       fl (sum / 2)
     }"

text \<open>
  A rounding for computations in which every exact result either is itself of type
  \<^verbatim>\<open>double\<close>, and is returned as it is, or is at least \<open>2^1024\<close> in magnitude, which
  IEEE arithmetic rounds to an infinity.
\<close>

definition finite_exact :: "real \<Rightarrow> real option" where
  "finite_exact x = (if \<bar>x\<bar> \<le> DBL_MAX then Some x else None)"

text \<open>
  The rows of the whole curve for inputs with both classes: the first row pushed before
  the loop, the rows of the sweep over the sorted pairs, and the row pushed after it.
\<close>

definition roc_rows :: "real list \<Rightarrow> bool list \<Rightarrow> roc_row list" where
  "roc_rows scores labels =
     (let pairs = sort_descending (zip scores labels); P = npos pairs; N = nneg pairs
      in (DBL_MAX, 0, 0) # emitted P N pairs 0 0 DBL_MAX
           @ [(fst (last pairs), nneg pairs / N, npos pairs / P)])"

text \<open>
  What \<^verbatim>\<open>std::sort\<close> with the comparator \<open>a.first > b.first\<close> guarantees of its
  result: a rearrangement of the input in which the scores do not increase.
\<close>

definition descending_sort :: "((real \<times> bool) list \<Rightarrow> (real \<times> bool) list) \<Rightarrow> bool" where
  "descending_sort sort_pairs =
     (\<forall>pairs. mset (sort_pairs pairs) = mset pairs
        \<and> sorted_wrt (\<lambda>a b. fst b \<le> fst a) (sort_pairs pairs))"

text \<open>
  A much coarser rounding, to the nearest quarter (ties upwards), for showing the effect
  of rounding on small numbers.
\<close>

definition quarter_rounding :: "real \<Rightarrow> real option" where
  "quarter_rounding x = Some (real_of_int \<lfloor>4 * x + 1 / 2\<rfloor> / 4)"

section \<open>Facts about 32-bit addition\<close>

lemma wrap32_id: "- 2147483648 \<le> x \<Longrightarrow> x \<le> 2147483647 \<Longrightarrow> wrap32 x = x"
  by (simp add: wrap32_def)

lemma wrap32_0: "wrap32 0 = 0"
  by (simp add: wrap32_def)

lemma wrap32_add_left: "wrap32 (wrap32 x + y) = wrap32 (x + y)"
proof -
  have "(wrap32 x + y + 2147483648) mod 4294967296 = (x + y + 2147483648) mod 4294967296"
    unfolding wrap32_def by (simp add: mod_simps algebra_simps)
  then show ?thesis
    by (simp add: wrap32_def[of "wrap32 x + y"] wrap32_def[of "x + y"])
qed

section \<open>The confusion matrix\<close>

lemma count_samples_Nil [simp]:
  "count_samples C [] labels = 0" "count_samples C scores [] = 0"
  by (simp_all add: count_samples_def)

lemma count_samples_Cons [simp]:
  "count_samples C (s # scores) (l # labels) =
     (if C s l then 1 else 0) + count_samples C scores labels"
  by (simp add: count_samples_def)

lemma count_samples_nonneg: "0 \<le> count_samples C scores labels"
  by (simp add: count_samples_def)

lemma count_samples_append:
  "length scores = length labels \<Longrightarrow>
   count_samples C (scores @ [s]) (labels @ [l]) =
     count_samples C scores labels + (if C s l then 1 else 0)"
  by (simp add: count_samples_def)

lemma count_samples_replicate:
  "count_samples C (replicate n s) (replicate n l) = (if C s l then int n else 0)"
  by (simp add: count_samples_def)

lemma count_samples_total:
  "length scores = length labels \<Longrightarrow>
   count_samples (\<lambda>s l. l \<and> s > t) scores labels
   + count_samples (\<lambda>s l. \<not> l \<and> s > t) scores labels
   + count_samples (\<lambda>s l. \<not> l \<and> \<not> s > t) scores labels
   + count_samples (\<lambda>s l. l \<and> \<not> s > t) scores labels
   = int (length scores)"
  by (induction scores labels rule: list_induct2) auto

text \<open>
  The loop adds to each counter the number of samples of its bucket, modulo \<open>2^32\<close>.
\<close>

lemma confusion_loop_counts:
  "length scores \<le> length labels \<Longrightarrow>
   confusion_loop scores labels t (wrap32 a, wrap32 b, wrap32 c, wrap32 d) =
     Some (wrap32 (a + count_samples (\<lambda>s l. l \<and> s > t) scores labels),
           wrap32 (b + count_samples (\<lambda>s l. \<not> l \<and> s > t) scores labels),
           wrap32 (c + count_samples (\<lambda>s l. \<not> l \<and> \<not> s > t) scores labels),
           wrap32 (d + count_samples (\<lambda>s l. l \<and> \<not> s > t) scores labels))"
proof (induction scores arbitrary: labels a b c d)
  case Nil
  then show ?case by simp
next
  case (Cons s scores)
  then obtain l ls where L: "labels = l # ls"
    by (cases labels) auto
  with Cons.prems have len: "length scores \<le> length ls"
    by simp
  show ?case
    using Cons.IH[OF len, of "a + 1" b c d] Cons.IH[OF len, of a "b + 1" c d]
      Cons.IH[OF len, of a b "c + 1" d] Cons.IH[OF len, of a b c "d + 1"]
    by (simp add: L tally_def int_add_def wrap32_add_left add.assoc add.commute[of 1])
qed

lemma calculateConfusionMatrix_counts:
  "length scores \<le> length labels \<Longrightarrow>
   calculateConfusionMatrix scores labels t =
     Some (wrap32 (count_samples (\<lambda>s l. l \<and> s > t) scores labels),
           wrap32 (count_samples (\<lambda>s l. \<not> l \<and> s > t) scores labels),
           wrap32 (count_samples (\<lambda>s l. \<not> l \<and> \<not> s > t) scores labels),
           wrap32 (count_samples (\<lambda>s l. l \<and> \<not> s > t) scores labels))"
  using confusion_loop_counts[of scores labels t 0 0 0 0]
  by (simp add: calculateConfusionMatrix_def wrap32_0)

text \<open>
  C5. For score and label vectors of equal length and every threshold, each counter
  holds the number of samples of its bucket (as a 32-bit value), where a sample is
  predicted positive exactly when its score is strictly greater than the threshold.
  In particular a further sample whose score is the threshold itself is added to the
  false negatives or to the true negatives, according to its label, and leaves the
  true and false positives as they are.
\<close>

theorem strict_threshold:
  assumes "length scores = length labels"
  shows "calculateConfusionMatrix scores labels threshold =
           Some (wrap32 (count_samples (\<lambda>score label. label \<and> score > threshold) scores labels),
                 wrap32 (count_samples (\<lambda>score label. \<not> label \<and> score > threshold) scores labels),
                 wrap32 (count_samples (\<lambda>score label. \<not> label \<and> \<not> score > threshold) scores labels),
                 wrap32 (count_samples (\<lambda>score label. label \<and> \<not> score > threshold) scores labels))
         \<and> calculateConfusionMatrix (scores @ [threshold]) (labels @ [label]) threshold =
             map_option (\<lambda>(tp, fp, tn, fn).
                 if label then (tp, fp, tn, int_add fn 1) else (tp, fp, int_add tn 1, fn))
               (calculateConfusionMatrix scores labels threshold)"
  using assms
  by (simp add: calculateConfusionMatrix_counts count_samples_append int_add_def
      wrap32_add_left)

theorem strict_threshold_witness:
  "calculateConfusionMatrix [1, 1 / 2, 0] [True, True, False] (1 / 2) = Some (1, 0, 1, 1)
   \<and> calculateConfusionMatrix [1, 0, 1 / 2] [True, False, True] (1 / 2) = Some (1, 0, 1, 1)"
  using strict_threshold[of "[1, 1 / 2, 0]" "[True, True, False]" "1 / 2" True]
    strict_threshold[of "[1, 0]" "[True, False]" "1 / 2" True]
  by (simp add: count_samples_def wrap32_def int_add_def)

lemma count_samples_le_label:
  "length scores = length labels \<Longrightarrow>
   count_samples (\<lambda>s l. l = c \<and> Q s) scores labels \<le> count_label c labels"
  by (induction scores labels rule: list_induct2) (auto simp: count_label_def)

text \<open>
  C6, for inputs in which neither class has more than \<open>INT_MAX\<close> samples. For score
  and label vectors of equal length \<open>n\<close> with at most \<open>2^31 - 1\<close> positive and at most
  \<open>2^31 - 1\<close> negative labels, and every threshold, the four counts are non-negative
  and their sum is \<open>n\<close>.
\<close>

theorem counts_sum:
  assumes "length scores = length labels"
    and "count_label True labels \<le> INT_MAX" and "count_label False labels \<le> INT_MAX"
  shows "\<exists>tp fp tn fn. calculateConfusionMatrix scores labels threshold = Some (tp, fp, tn, fn)
           \<and> 0 \<le> tp \<and> 0 \<le> fp \<and> 0 \<le> tn \<and> 0 \<le> fn
           \<and> tp + fp + tn + fn = int (length scores)"
proof -
  let ?tp = "count_samples (\<lambda>s l. l \<and> s > threshold) scores labels"
  let ?fp = "count_samples (\<lambda>s l. \<not> l \<and> s > threshold) scores labels"
  let ?tn = "count_samples (\<lambda>s l. \<not> l \<and> \<not> s > threshold) scores labels"
  let ?fn = "count_samples (\<lambda>s l. l \<and> \<not> s > threshold) scores labels"
  have total: "?tp + ?fp + ?tn + ?fn = int (length scores)"
    using assms(1) by (rule count_samples_total)
  have nonneg: "0 \<le> ?tp" "0 \<le> ?fp" "0 \<le> ?tn" "0 \<le> ?fn"
    by (rule count_samples_nonneg)+
  have "?tp \<le> count_label True labels" "?fn \<le> count_label True labels"
    using count_samples_le_label[OF assms(1), of True "\<lambda>s. s > threshold"]
      count_samples_le_label[OF assms(1), of True "\<lambda>s. \<not> s > threshold"]
    by simp_all
  moreover have "?fp \<le> count_label False labels" "?tn \<le> count_label False labels"
    using count_samples_le_label[OF assms(1), of False "\<lambda>s. s > threshold"]
      count_samples_le_label[OF assms(1), of False "\<lambda>s. \<not> s > threshold"]
    by simp_all
  ultimately have small: "?tp \<le> 2147483647" "?fp \<le> 2147483647" "?tn \<le> 2147483647"
    "?fn \<le> 2147483647"
    using assms(2,3) by (simp_all add: INT_MAX_def)
  have "calculateConfusionMatrix scores labels threshold = Some (?tp, ?fp, ?tn, ?fn)"
    using assms(1) nonneg small by (simp add: calculateConfusionMatrix_counts wrap32_id)
  with total nonneg show ?thesis
    by blast
qed

theorem counts_sum_witness:
  "\<exists>tp fp tn fn.
     calculateConfusionMatrix [1, 1, 1] [True, False, True] (1 / 2) = Some (tp, fp, tn, fn)
     \<and> 0 \<le> tp \<and> 0 \<le> fp \<and> 0 \<le> tn \<and> 0 \<le> fn \<and> tp + fp + tn + fn = 3"
  using counts_sum[of "[1, 1, 1]" "[True, False, True]" "1 / 2"]
  by (simp add: INT_MAX_def count_label_def)

text \<open>
  C6 as it is stated fails for \<open>2^31\<close> samples that are all positive and all above the
  threshold: the counter of true positives is incremented past \<open>INT_MAX\<close>, it ends
  negative, and the sum of the four counts is not the number of samples.
\<close>

theorem counts_sum_counterexample:
  "length (replicate 2147483648 (1::real)) = length (replicate 2147483648 True)
   \<and> calculateConfusionMatrix (replicate 2147483648 1) (replicate 2147483648 True) 0
       = Some (- 2147483648, 0, 0, 0)"
  by (simp add: calculateConfusionMatrix_counts count_samples_replicate wrap32_def)

section \<open>The metrics\<close>

lemma guarded_ratio_bounds:
  "0 \<le> a \<Longrightarrow> a \<le> b \<Longrightarrow> 0 \<le> guarded_ratio a b \<and> guarded_ratio a b \<le> 1"
  by (simp add: guarded_ratio_def)

lemma guarded_ratio_f1_bounds:
  assumes "0 \<le> p" "p \<le> 1" "0 \<le> r" "r \<le> 1"
  shows "0 \<le> guarded_ratio (2 * p * r) (p + r) \<and> guarded_ratio (2 * p * r) (p + r) \<le> 1"
proof (cases "p + r > 0")
  case True
  have "p * r \<le> p * 1"
    using assms by (intro mult_left_mono) auto
  moreover have "p * r \<le> 1 * r"
    using assms by (intro mult_right_mono) auto
  ultimately have "2 * p * r \<le> p + r"
    by simp
  moreover have "0 \<le> 2 * p * r"
    using assms by simp
  ultimately show ?thesis
    using True by (simp add: guarded_ratio_def)
next
  case False
  then show ?thesis
    by (simp add: guarded_ratio_def)
qed

text \<open>While no \<^verbatim>\<open>int\<close> sum overflows, the map holds the guarded quotients.\<close>

lemma calculateMetrics_in_range:
  assumes "0 \<le> tp" "0 \<le> fp" "0 \<le> tn" "0 \<le> fn" "tp + fp + tn + fn \<le> 2147483647"
  shows "calculateMetrics (tp, fp, tn, fn) =
           Some [''true_positives'' \<mapsto> real_of_int tp,
                 ''false_positives'' \<mapsto> real_of_int fp,
                 ''true_negatives'' \<mapsto> real_of_int tn,
                 ''false_negatives'' \<mapsto> real_of_int fn,
                 ''accuracy'' \<mapsto>
                   guarded_ratio (real_of_int (tp + tn)) (real_of_int (tp + fp + tn + fn)),
                 ''precision'' \<mapsto> guarded_ratio (real_of_int tp) (real_of_int (tp + fp)),
                 ''recall'' \<mapsto> guarded_ratio (real_of_int tp) (real_of_int (tp + fn)),
                 ''specificity'' \<mapsto> guarded_ratio (real_of_int tn) (real_of_int (tn + fp)),
                 ''f1_score'' \<mapsto>
                   guarded_ratio
                     (2 * guarded_ratio (real_of_int tp) (real_of_int (tp + fp))
                        * guarded_ratio (real_of_int tp) (real_of_int (tp + fn)))
                     (guarded_ratio (real_of_int tp) (real_of_int (tp + fp))
                        + guarded_ratio (real_of_int tp) (real_of_int (tp + fn)))]"
proof -
  have w: "int_add tp fp = tp + fp" "int_add (tp + fp) tn = tp + fp + tn"
    "int_add (tp + fp + tn) fn = tp + fp + tn + fn" "int_add tp tn = tp + tn"
    "int_add tp fn = tp + fn" "int_add tn fp = tn + fp"
    using assms by (simp_all add: int_add_def wrap32_id)
  show ?thesis
    unfolding calculateMetrics_def
    by (simp add: w fdiv_def guarded_ratio_def Let_def)
qed

text \<open>
  Every division of \<open>calculateMetrics\<close> is behind a guard that makes its divisor
  positive, overflow or not: the function always returns a map, with the nine keys.
\<close>

lemma calculateMetrics_total:
  "\<exists>m. calculateMetrics cm = Some m
     \<and> dom m = {''true_positives'', ''false_positives'', ''true_negatives'',
                 ''false_negatives'', ''accuracy'', ''precision'', ''recall'',
                 ''specificity'', ''f1_score''}"
proof -
  obtain tp fp tn fn where cm: "cm = (tp, fp, tn, fn)"
    by (cases cm) auto
  show ?thesis
    unfolding cm calculateMetrics_def
    by (auto simp: fdiv_def Let_def)
qed

text \<open>
  C4, for counts whose total is at most \<open>INT_MAX\<close>. For non-negative counts
  \<open>TP, FP, TN, FN\<close> with \<open>TP + FP + TN + FN \<le> 2^31 - 1\<close>, \<open>calculateMetrics\<close> returns
  a map (no division by zero takes place) with the four counts and
  accuracy \<open>= (TP+TN)/total\<close> if \<open>total > 0\<close> else \<open>0\<close>,
  precision \<open>= TP/(TP+FP)\<close> if \<open>TP+FP > 0\<close> else \<open>0\<close>,
  recall \<open>= TP/(TP+FN)\<close> if \<open>TP+FN > 0\<close> else \<open>0\<close>,
  specificity \<open>= TN/(TN+FP)\<close> if \<open>TN+FP > 0\<close> else \<open>0\<close>,
  f1_score \<open>= 2 precision recall / (precision + recall)\<close> if \<open>precision + recall > 0\<close>
  else \<open>0\<close>; each of the five lies between 0 and 1.
\<close>

theorem calculateMetrics_formulas:
  assumes "0 \<le> tp" and "0 \<le> fp" and "0 \<le> tn" and "0 \<le> fn"
    and "tp + fp + tn + fn \<le> INT_MAX"
  shows "\<exists>accuracy precision recall specificity f1_score.
           calculateMetrics (tp, fp, tn, fn) =
             Some [''true_positives'' \<mapsto> real_of_int tp,
                   ''false_positives'' \<mapsto> real_of_int fp,
                   ''true_negatives'' \<mapsto> real_of_int tn,
                   ''false_negatives'' \<mapsto> real_of_int fn,
                   ''accuracy'' \<mapsto> accuracy,
                   ''precision'' \<mapsto> precision,
                   ''recall'' \<mapsto> recall,
                   ''specificity'' \<mapsto> specificity,
                   ''f1_score'' \<mapsto> f1_score]
           \<and> accuracy = guarded_ratio (real_of_int (tp + tn)) (real_of_int (tp + fp + tn + fn))
           \<and> precision = guarded_ratio (real_of_int tp) (real_of_int (tp + fp))
           \<and> recall = guarded_ratio (real_of_int tp) (real_of_int (tp + fn))
           \<and> specificity = guarded_ratio (real_of_int tn) (real_of_int (tn + fp))
           \<and> f1_score = guarded_ratio (2 * precision * recall) (precision + recall)
           \<and> 0 \<le> accuracy \<and> accuracy \<le> 1 \<and> 0 \<le> precision \<and> precision \<le> 1
           \<and> 0 \<le> recall \<and> recall \<le> 1 \<and> 0 \<le> specificity \<and> specificity \<le> 1
           \<and> 0 \<le> f1_score \<and> f1_score \<le> 1"
proof -
  let ?acc = "guarded_ratio (real_of_int (tp + tn)) (real_of_int (tp + fp + tn + fn))"
  let ?p = "guarded_ratio (real_of_int tp) (real_of_int (tp + fp))"
  let ?r = "guarded_ratio (real_of_int tp) (real_of_int (tp + fn))"
  let ?s = "guarded_ratio (real_of_int tn) (real_of_int (tn + fp))"
  have small: "tp + fp + tn + fn \<le> 2147483647"
    using assms(5) by (simp add: INT_MAX_def)
  have acc: "0 \<le> ?acc \<and> ?acc \<le> 1"
    using assms by (intro guarded_ratio_bounds) simp_all
  have p: "0 \<le> ?p \<and> ?p \<le> 1"
    using assms by (intro guarded_ratio_bounds) simp_all
  have r: "0 \<le> ?r \<and> ?r \<le> 1"
    using assms by (intro guarded_ratio_bounds) simp_all
  have s: "0 \<le> ?s \<and> ?s \<le> 1"
    using assms by (intro guarded_ratio_bounds) simp_all
  have f: "0 \<le> guarded_ratio (2 * ?p * ?r) (?p + ?r) \<and> guarded_ratio (2 * ?p * ?r) (?p + ?r) \<le> 1"
    using p r by (intro guarded_ratio_f1_bounds) simp_all
  show ?thesis
    using calculateMetrics_in_range[OF assms(1-4) small] acc p r s f
    by blast
qed

theorem calculateMetrics_formulas_witness:
  "calculateMetrics (2, 1, 0, 0) =
     Some [''true_positives'' \<mapsto> 2, ''false_positives'' \<mapsto> 1, ''true_negatives'' \<mapsto> 0,
           ''false_negatives'' \<mapsto> 0, ''accuracy'' \<mapsto> 2 / 3, ''precision'' \<mapsto> 2 / 3,
           ''recall'' \<mapsto> 1, ''specificity'' \<mapsto> 0, ''f1_score'' \<mapsto> 4 / 5]"
proof -
  have h: "(0::int) \<le> 2" "(0::int) \<le> 1" "(0::int) \<le> 0" "(2::int) + 1 + 0 + 0 \<le> INT_MAX"
    by (simp_all add: INT_MAX_def)
  from calculateMetrics_formulas[OF h(1) h(2) h(3) h(3) h(4)]
  obtain a p r s f where
    m: "calculateMetrics (2, 1, 0, 0) =
          Some [''true_positives'' \<mapsto> real_of_int 2, ''false_positives'' \<mapsto> real_of_int 1,
                ''true_negatives'' \<mapsto> real_of_int 0, ''false_negatives'' \<mapsto> real_of_int 0,
                ''accuracy'' \<mapsto> a, ''precision'' \<mapsto> p, ''recall'' \<mapsto> r,
                ''specificity'' \<mapsto> s, ''f1_score'' \<mapsto> f]"
    and v: "a = guarded_ratio (real_of_int (2 + 0)) (real_of_int (2 + 1 + 0 + 0))"
      "p = guarded_ratio (real_of_int 2) (real_of_int (2 + 1))"
      "r = guarded_ratio (real_of_int 2) (real_of_int (2 + 0))"
      "s = guarded_ratio (real_of_int 0) (real_of_int (0 + 1))"
    and f: "f = guarded_ratio (2 * p * r) (p + r)"
    by blast
  show ?thesis
    unfolding m f v by (simp add: guarded_ratio_def)
qed

text \<open>
  With \<open>TP = INT_MAX\<close> and \<open>FP = 1\<close> the \<^verbatim>\<open>int\<close> sum \<open>TP + FP\<close> overflows to
  \<open>- 2^31\<close>: the guards \<open>total > 0\<close> and \<open>TP + FP > 0\<close> fail, and accuracy and
  precision are reported as \<open>0\<close>, where the formulas give \<open>2147483647 / 2147483648\<close>.
\<close>

theorem calculateMetrics_formulas_counterexample:
  "calculateMetrics (2147483647, 1, 0, 0) =
     Some [''true_positives'' \<mapsto> 2147483647, ''false_positives'' \<mapsto> 1,
           ''true_negatives'' \<mapsto> 0, ''false_negatives'' \<mapsto> 0, ''accuracy'' \<mapsto> 0,
           ''precision'' \<mapsto> 0, ''recall'' \<mapsto> 1, ''specificity'' \<mapsto> 0, ''f1_score'' \<mapsto> 0]
   \<and> guarded_ratio (real_of_int 2147483647) (real_of_int (2147483647 + 1)) \<noteq> 0"
  by (simp add: calculateMetrics_def int_add_def wrap32_def fdiv_def guarded_ratio_def)

section \<open>The ROC curve\<close>

lemma count_classes_eq:
  "count_classes pairs (p, n) = (p + npos pairs, n + nneg pairs)"
  by (induction pairs arbitrary: p n) (auto simp: npos_def nneg_def)

lemma npos_sort: "npos (sort_descending pairs) = npos pairs"
  by (simp add: npos_def sort_descending_def filter_sort)

lemma nneg_sort: "nneg (sort_descending pairs) = nneg pairs"
  by (simp add: nneg_def sort_descending_def filter_sort)

lemma npos_zip_pos:
  assumes "length scores = length labels" "True \<in> set labels"
  shows "0 < npos (zip scores labels)"
proof -
  from assms(2) obtain i where i: "i < length labels" "labels ! i = True"
    by (auto simp: in_set_conv_nth)
  then have "(scores ! i, True) \<in> set (zip scores labels)"
    using assms(1) by (auto simp: in_set_zip)
  then have "(scores ! i, True) \<in> set (filter snd (zip scores labels))"
    by simp
  then have "filter snd (zip scores labels) \<noteq> []"
    by (metis empty_iff list.set(1))
  then show ?thesis by (simp add: npos_def)
qed

lemma nneg_zip_pos:
  assumes "length scores = length labels" "False \<in> set labels"
  shows "0 < nneg (zip scores labels)"
proof -
  from assms(2) obtain i where i: "i < length labels" "labels ! i = False"
    by (auto simp: in_set_conv_nth)
  then have "(scores ! i, False) \<in> set (zip scores labels)"
    using assms(1) by (auto simp: in_set_zip)
  then have "(scores ! i, False) \<in> set (filter (\<lambda>p. \<not> snd p) (zip scores labels))"
    by simp
  then have "filter (\<lambda>p. \<not> snd p) (zip scores labels) \<noteq> []"
    by (metis empty_iff list.set(1))
  then show ?thesis by (simp add: nneg_def)
qed

lemma npos_zip_zero:
  "True \<notin> set labels \<Longrightarrow> npos (zip scores labels) = 0"
  by (auto simp: npos_def filter_empty_conv dest: set_zip_rightD)

lemma nneg_zip_zero:
  "False \<notin> set labels \<Longrightarrow> nneg (zip scores labels) = 0"
proof -
  assume a: "False \<notin> set labels"
  have "snd p" if "p \<in> set (zip scores labels)" for p
  proof -
    from that have "snd p \<in> set labels"
      by (metis prod.collapse set_zip_rightD)
    with a show ?thesis by (cases "snd p") auto
  qed
  then show ?thesis
    by (simp add: nneg_def filter_empty_conv)
qed

lemma npos_Cons: "npos ((s, l) # xs) = (if l then 1 else 0) + npos xs"
  by (simp add: npos_def)

lemma nneg_Cons: "nneg ((s, l) # xs) = (if l then 0 else 1) + nneg xs"
  by (simp add: nneg_def)

lemma npos_nonneg: "0 \<le> npos xs" by (simp add: npos_def)
lemma nneg_nonneg: "0 \<le> nneg xs" by (simp add: nneg_def)

lemma sweep_emitted:
  assumes "P \<noteq> 0" "N \<noteq> 0"
  shows "sweep P N pairs s =
     Some \<lparr>true_positives = true_positives s + npos pairs,
           false_positives = false_positives s + nneg pairs,
           prev_score = (if pairs = [] then prev_score s else fst (last pairs)),
           fpr = fpr s @ map row_fpr (emitted P N pairs (true_positives s) (false_positives s) (prev_score s)),
           tpr = tpr s @ map row_tpr (emitted P N pairs (true_positives s) (false_positives s) (prev_score s)),
           thresholds = thresholds s @ map row_threshold (emitted P N pairs (true_positives s) (false_positives s) (prev_score s))\<rparr>"
proof (induction pairs arbitrary: s)
  case Nil
  then show ?case by (simp add: npos_def nneg_def)
next
  case (Cons x pairs)
  obtain score label where x: "x = (score, label)" by (cases x)
  show ?case
    using assms
    by (cases label; cases "score = prev_score s")
       (simp_all add: x Cons.IH push_point_def fdiv_def count_sample_def npos_Cons nneg_Cons
          row_fpr_def row_tpr_def row_threshold_def)
qed


lemma emitted_bounds:
  assumes "0 < P" "0 < N" "0 \<le> tp" "0 \<le> fp"
  shows "r \<in> set (emitted P N pairs tp fp prev) \<Longrightarrow>
     fp / N \<le> row_fpr r \<and> row_fpr r \<le> (fp + nneg pairs) / N
     \<and> tp / P \<le> row_tpr r \<and> row_tpr r \<le> (tp + npos pairs) / P"
  using assms(3,4)
proof (induction pairs arbitrary: tp fp prev)
  case Nil
  then show ?case by simp
next
  case (Cons x pairs)
  obtain score label where x: "x = (score, label)" by (cases x)
  let ?tp = "if label then tp + 1 else tp"
  let ?fp = "if label then fp else fp + 1"
  have nn: "0 \<le> ?tp" "0 \<le> ?fp" using Cons.prems by auto
  have mono: "fp / N \<le> ?fp / N" "tp / P \<le> ?tp / P"
    using assms(1,2) by (auto simp: divide_le_cancel)
  have tot: "?fp + nneg pairs = fp + nneg (x # pairs)" "?tp + npos pairs = tp + npos (x # pairs)"
    by (auto simp: x npos_Cons nneg_Cons)
  have first: "fp / N \<le> (fp + nneg (x # pairs)) / N" "tp / P \<le> (tp + npos (x # pairs)) / P"
    using assms(1,2) nneg_nonneg[of "x # pairs"] npos_nonneg[of "x # pairs"]
    by (auto simp: divide_le_cancel)
  from Cons.prems(1) consider
    (here) "r = (prev, fp / N, tp / P)" |
    (later) p where "r \<in> set (emitted P N pairs ?tp ?fp p)"
    by (auto simp: x split: if_splits)
  then show ?case
  proof cases
    case here
    then show ?thesis using first by (simp add: row_fpr_def row_tpr_def)
  next
    case later
    from Cons.IH[OF later nn] mono tot show ?thesis
      by (metis order_trans)
  qed
qed

lemma emitted_sorted:
  assumes "0 < P" "0 < N" "0 \<le> tp" "0 \<le> fp"
  shows "sorted (map row_fpr (emitted P N pairs tp fp prev))
       \<and> sorted (map row_tpr (emitted P N pairs tp fp prev))"
  using assms(3,4)
proof (induction pairs arbitrary: tp fp prev)
  case Nil
  then show ?case by simp
next
  case (Cons x pairs)
  obtain score label where x: "x = (score, label)" by (cases x)
  let ?tp = "if label then tp + 1 else tp"
  let ?fp = "if label then fp else fp + 1"
  have nn: "0 \<le> ?tp" "0 \<le> ?fp" using Cons.prems by auto
  have mono: "fp / N \<le> ?fp / N" "tp / P \<le> ?tp / P"
    using assms(1,2) by (auto simp: divide_le_cancel)
  have low: "fp / N \<le> row_fpr r \<and> tp / P \<le> row_tpr r"
    if "r \<in> set (emitted P N pairs ?tp ?fp p)" for r p
    using emitted_bounds[OF assms(1,2) nn that] mono by (metis order_trans)
  show ?case
  proof (cases "score = prev")
    case True
    then show ?thesis using Cons.IH[OF nn] by (simp add: x)
  next
    case False
    then show ?thesis using Cons.IH[OF nn, of score] low[of _ score]
      by (auto simp: x row_fpr_def row_tpr_def)
  qed
qed

lemma write_rows_all:
  "i \<le> length R \<Longrightarrow>
   write_rows (map row_threshold R) (map row_fpr R) (map row_tpr R) i out = Some (out @ drop i R)"
proof (induction "length R - i" arbitrary: i out)
  case 0
  then show ?case by (subst write_rows.simps) simp
next
  case (Suc k)
  then have i: "i < length R" by simp
  have k: "k = length R - (i + 1)" using Suc.hyps(2) by simp
  have "write_rows (map row_threshold R) (map row_fpr R) (map row_tpr R) i out =
        write_rows (map row_threshold R) (map row_fpr R) (map row_tpr R) (i + 1) (out @ [R ! i])"
    using i by (subst write_rows.simps) (simp add: row_threshold_def row_fpr_def row_tpr_def)
  also have "\<dots> = Some ((out @ [R ! i]) @ drop (i + 1) R)"
    using Suc.hyps(1)[OF k] i by simp
  also have "(out @ [R ! i]) @ drop (i + 1) R = out @ drop i R"
    using i by (simp add: Cons_nth_drop_Suc)
  finally show ?case .
qed

lemma auc_loop_sum:
  "i \<le> length R \<Longrightarrow>
   auc_loop (map row_fpr R) (map row_tpr R) i a =
     Some (a + (\<Sum>j = i..<length R.
        (row_fpr (R ! j) - row_fpr (R ! (j - 1))) * (row_tpr (R ! j) + row_tpr (R ! (j - 1))) / 2))"
proof (induction "length R - i" arbitrary: i a)
  case 0
  then show ?case by (subst auc_loop.simps) simp
next
  case (Suc k)
  then have i: "i < length R" by simp
  have k: "k = length R - (i + 1)" using Suc.hyps(2) by simp
  let ?t = "\<lambda>j. (row_fpr (R ! j) - row_fpr (R ! (j - 1))) * (row_tpr (R ! j) + row_tpr (R ! (j - 1))) / 2"
  have "auc_loop (map row_fpr R) (map row_tpr R) i a =
        auc_loop (map row_fpr R) (map row_tpr R) (i + 1) (a + ?t i)"
    using i by (subst auc_loop.simps) simp
  also have "\<dots> = Some (a + ?t i + sum ?t {i + 1..<length R})"
    using Suc.hyps(1)[OF k] i by simp
  also have "a + ?t i + sum ?t {i + 1..<length R} = a + sum ?t {i..<length R}"
    using i by (simp add: sum.atLeast_Suc_lessThan)
  finally show ?case .
qed

lemma saveRoc_valid:
  assumes len: "length scores = length labels" and ne: "scores \<noteq> []"
    and pos: "True \<in> set labels" and neg: "False \<in> set labels"
  shows "saveRocDataToCSV file_opens scores labels =
     Some \<lparr>returned = trapezoidal_sum (roc_rows scores labels),
           csv_rows = (if file_opens then Some (roc_rows scores labels) else None),
           cerr = (if file_opens then [] else [CannotOpenFile])\<rparr>"
proof -
  let ?pairs = "sort_descending (zip scores labels)"
  let ?P = "npos ?pairs" and ?N = "nneg ?pairs"
  have P: "0 < ?P" using npos_zip_pos[OF len pos] by (simp add: npos_sort)
  have N: "0 < ?N" using nneg_zip_pos[OF len neg] by (simp add: nneg_sort)
  have pne: "?pairs \<noteq> []" using len ne by (auto simp: sort_descending_def dest: arg_cong[where f=length])
  let ?E = "emitted ?P ?N ?pairs 0 0 DBL_MAX"
  let ?R = "roc_rows scores labels"
  have R: "?R = (DBL_MAX, 0, 0) # ?E @ [(fst (last ?pairs), ?N / ?N, ?P / ?P)]"
    by (simp add: roc_rows_def Let_def)
  have sw: "sweep ?P ?N ?pairs initial_state =
     Some \<lparr>true_positives = ?P, false_positives = ?N, prev_score = fst (last ?pairs),
           fpr = [0] @ map row_fpr ?E, tpr = [0] @ map row_tpr ?E,
           thresholds = [DBL_MAX] @ map row_threshold ?E\<rparr>"
    using P N pne by (subst sweep_emitted) (simp_all add: initial_state_def)
  have curve: "roc_curve scores labels =
     Some (Inr \<lparr>true_positives = ?P, false_positives = ?N, prev_score = fst (last ?pairs),
           fpr = map row_fpr ?R, tpr = map row_tpr ?R,
           thresholds = map row_threshold ?R\<rparr>)"
    unfolding roc_curve_def roc_curve_with_def Let_def count_classes_eq
    using P N by (simp add: sw push_point_def fdiv_def R row_fpr_def row_tpr_def row_threshold_def)
  have auc: "auc_loop (map row_fpr ?R) (map row_tpr ?R) (Suc 0) 0 = Some (trapezoidal_sum ?R)"
    using auc_loop_sum[of 1 ?R 0] by (simp add: trapezoidal_sum_def R)
  have wr: "write_rows (map row_threshold ?R) (map row_fpr ?R) (map row_tpr ?R) 0 [] = Some ?R"
    by (subst write_rows_all) simp_all
  show ?thesis
    using len ne by (simp add: saveRocDataToCSV_def curve auc wr)
qed

lemma sort_descending_sorted:
  "sorted_wrt (\<lambda>a b. fst b \<le> fst a) (sort_descending pairs)"
  using sorted_sort_key[of "\<lambda>p. - fst p" pairs]
  by (simp add: sort_descending_def sorted_map)

lemma descending_last:
  fixes xs :: "(real \<times> bool) list"
  shows "sorted_wrt (\<lambda>a b. fst b \<le> fst a) xs \<Longrightarrow> x \<in> set xs \<Longrightarrow> fst (last xs) \<le> fst x"
  by (induction xs) auto

lemma set_fst_sort_descending:
  "length scores = length labels \<Longrightarrow> fst ` set (sort_descending (zip scores labels)) = set scores"
proof -
  assume len: "length scores = length labels"
  have "fst ` set (sort_descending (zip scores labels)) = set (map fst (zip scores labels))"
    by (simp add: sort_descending_def)
  also have "\<dots> = set scores" using len by simp
  finally show ?thesis .
qed

lemma last_sorted_Min:
  assumes len: "length scores = length labels" and ne: "scores \<noteq> []"
  shows "fst (last (sort_descending (zip scores labels))) = Min (set scores)"
proof -
  let ?pairs = "sort_descending (zip scores labels)"
  have pne: "?pairs \<noteq> []"
    using len ne by (auto simp: sort_descending_def dest: arg_cong[where f=length])
  have mem: "fst (last ?pairs) \<in> set scores"
    using pne set_fst_sort_descending[OF len] by (metis imageI last_in_set)
  have low: "fst (last ?pairs) \<le> s" if "s \<in> set scores" for s
  proof -
    from that obtain x where "x \<in> set ?pairs" "fst x = s"
      using set_fst_sort_descending[OF len] by (metis imageE)
    then show ?thesis
      using descending_last[OF sort_descending_sorted] by metis
  qed
  show ?thesis
    using mem low by (intro Min_eqI[symmetric]) auto
qed

lemma roc_rows_shape:
  assumes len: "length scores = length labels" and ne: "scores \<noteq> []"
    and pos: "True \<in> set labels" and neg: "False \<in> set labels"
  shows "hd (roc_rows scores labels) = (DBL_MAX, 0, 0)"
    and "last (roc_rows scores labels) = (Min (set scores), 1, 1)"
    and "sorted (map row_fpr (roc_rows scores labels))"
    and "sorted (map row_tpr (roc_rows scores labels))"
    and "r \<in> set (roc_rows scores labels) \<Longrightarrow>
           0 \<le> row_fpr r \<and> row_fpr r \<le> 1 \<and> 0 \<le> row_tpr r \<and> row_tpr r \<le> 1"
proof -
  let ?pairs = "sort_descending (zip scores labels)"
  let ?P = "npos ?pairs" and ?N = "nneg ?pairs"
  have P: "0 < ?P" using npos_zip_pos[OF len pos] by (simp add: npos_sort)
  have N: "0 < ?N" using nneg_zip_pos[OF len neg] by (simp add: nneg_sort)
  let ?E = "emitted ?P ?N ?pairs 0 0 DBL_MAX"
  let ?R = "roc_rows scores labels"
  have R: "?R = (DBL_MAX, 0, 0) # ?E @ [(Min (set scores), 1, 1)]"
    using P N by (simp add: roc_rows_def Let_def last_sorted_Min[OF len ne])
  have b: "0 \<le> row_fpr e \<and> row_fpr e \<le> 1 \<and> 0 \<le> row_tpr e \<and> row_tpr e \<le> 1"
    if "e \<in> set ?E" for e
    using emitted_bounds[OF P N _ _ that] P N by simp
  have s: "sorted (map row_fpr ?E) \<and> sorted (map row_tpr ?E)"
    using emitted_sorted[OF P N, of 0 0] by simp
  show "hd ?R = (DBL_MAX, 0, 0)" by (simp add: R)
  show "last ?R = (Min (set scores), 1, 1)" by (simp add: R)
  show "sorted (map row_fpr ?R)"
    using s b by (auto simp: R sorted_append row_fpr_def)
  show "sorted (map row_tpr ?R)"
    using s b by (auto simp: R sorted_append row_tpr_def)
  show "0 \<le> row_fpr r \<and> row_fpr r \<le> 1 \<and> 0 \<le> row_tpr r \<and> row_tpr r \<le> 1"
    if "r \<in> set ?R"
  proof -
    from that consider "r = (DBL_MAX, 0, 0)" | "r \<in> set ?E" | "r = (Min (set scores), 1, 1)"
      by (auto simp: R)
    then show ?thesis
    proof cases
      case 1
      then show ?thesis by (simp add: row_fpr_def row_tpr_def)
    next
      case 2
      then show ?thesis by (rule b)
    next
      case 3
      then show ?thesis by (simp add: row_fpr_def row_tpr_def)
    qed
  qed
qed

lemma trapezoid_prefix_bounds:
  assumes sorted: "sorted (map row_fpr R)"
    and unit: "\<And>r. r \<in> set R \<Longrightarrow> 0 \<le> row_tpr r \<and> row_tpr r \<le> 1"
  shows "k < length R \<Longrightarrow>
     0 \<le> (\<Sum>j = 1..<Suc k. (row_fpr (R ! j) - row_fpr (R ! (j - 1)))
                              * (row_tpr (R ! j) + row_tpr (R ! (j - 1))) / 2)
     \<and> (\<Sum>j = 1..<Suc k. (row_fpr (R ! j) - row_fpr (R ! (j - 1)))
                              * (row_tpr (R ! j) + row_tpr (R ! (j - 1))) / 2)
         \<le> row_fpr (R ! k) - row_fpr (R ! 0)"
proof (induction k)
  case 0
  then show ?case by simp
next
  case (Suc k)
  let ?area = "\<lambda>j. (row_fpr (R ! j) - row_fpr (R ! (j - 1)))
                              * (row_tpr (R ! j) + row_tpr (R ! (j - 1))) / 2"
  let ?d = "row_fpr (R ! Suc k) - row_fpr (R ! k)"
  let ?h = "(row_tpr (R ! Suc k) + row_tpr (R ! k)) / 2"
  have k: "k < length R" "Suc k < length R" using Suc.prems by auto
  have "map row_fpr R ! k \<le> map row_fpr R ! Suc k"
    using sorted k by (intro sorted_nth_mono) auto
  then have d: "0 \<le> ?d" using k by simp
  have h: "0 \<le> ?h" "?h \<le> 1"
    using unit[of "R ! k"] unit[of "R ! Suc k"] k by auto
  have "?area (Suc k) = ?d * ?h" by simp
  moreover have "0 \<le> ?d * ?h" using d h by simp
  moreover have "?d * ?h \<le> ?d * 1" using d h by (intro mult_left_mono) auto
  ultimately have t: "0 \<le> ?area (Suc k)" "?area (Suc k) \<le> ?d" by simp_all
  have split: "sum ?area {1..<Suc (Suc k)} = sum ?area {1..<Suc k} + ?area (Suc k)"
    by simp
  from Suc.IH[OF k(1)] t show ?case
    unfolding split by linarith
qed

lemma trapezoidal_sum_bounds:
  assumes "sorted (map row_fpr R)"
    and "\<And>r. r \<in> set R \<Longrightarrow> 0 \<le> row_tpr r \<and> row_tpr r \<le> 1"
    and "R \<noteq> []"
  shows "0 \<le> trapezoidal_sum R \<and> trapezoidal_sum R \<le> row_fpr (last R) - row_fpr (hd R)"
proof -
  from assms(3) obtain k where k: "length R = Suc k" by (cases R) auto
  then have "k < length R" by simp
  from trapezoid_prefix_bounds[OF assms(1,2) this]
  show ?thesis
    using assms(3) k by (simp add: trapezoidal_sum_def last_conv_nth hd_conv_nth)
qed

section \<open>Samples of equal score\<close>

text \<open>
  \<^verbatim>\<open>std::sort\<close> is free to arrange samples of equal score in any order. The rows of
  the sweep depend only on how many positive and negative samples each score has, so
  they are the same for every such arrangement.
\<close>

lemma npos_mset: "mset xs = mset ys \<Longrightarrow> npos xs = npos ys"
proof -
  assume "mset xs = mset ys"
  then have "mset (filter snd xs) = mset (filter snd ys)" by simp
  then have "length (filter snd xs) = length (filter snd ys)" by (rule mset_eq_length)
  then show ?thesis by (simp add: npos_def)
qed

lemma nneg_mset: "mset xs = mset ys \<Longrightarrow> nneg xs = nneg ys"
proof -
  assume "mset xs = mset ys"
  then have "mset (filter (\<lambda>p. \<not> snd p) xs) = mset (filter (\<lambda>p. \<not> snd p) ys)" by simp
  then have "length (filter (\<lambda>p. \<not> snd p) xs) = length (filter (\<lambda>p. \<not> snd p) ys)"
    by (rule mset_eq_length)
  then show ?thesis by (simp add: nneg_def)
qed

lemma emitted_tie_group:
  "g \<noteq> [] \<Longrightarrow> (\<And>p. p \<in> set g \<Longrightarrow> fst p = v) \<Longrightarrow>
   emitted P N (g @ r) tp fp prev =
     (if v \<noteq> prev then [(prev, fp / N, tp / P)] else [])
       @ emitted P N r (tp + npos g) (fp + nneg g) v"
proof (induction g arbitrary: tp fp prev)
  case Nil
  then show ?case by simp
next
  case (Cons x g)
  obtain score label where x: "x = (score, label)" by (cases x)
  have v: "score = v" using Cons.prems(2)[of x] by (simp add: x)
  have rest: "\<And>p. p \<in> set g \<Longrightarrow> fst p = v" using Cons.prems(2) by simp
  show ?case
  proof (cases "g = []")
    case True
    then show ?thesis
      by (cases label) (simp_all add: x v npos_def nneg_def)
  next
    case False
    show ?thesis
      using Cons.IH[OF False rest]
      by (cases label) (simp_all add: x v npos_Cons nneg_Cons add.assoc)
  qed
qed

lemma descending_split:
  fixes xs :: "(real \<times> bool) list"
  shows "sorted_wrt (\<lambda>a b. fst b \<le> fst a) xs \<Longrightarrow> (\<And>p. p \<in> set xs \<Longrightarrow> fst p \<le> v) \<Longrightarrow>
     xs = filter (\<lambda>p. fst p = v) xs @ filter (\<lambda>p. fst p \<noteq> v) xs"
proof (induction xs)
  case Nil
  then show ?case by simp
next
  case (Cons x xs)
  have sorted: "sorted_wrt (\<lambda>a b. fst b \<le> fst a) xs"
    and below: "\<And>p. p \<in> set xs \<Longrightarrow> fst p \<le> fst x"
    and top: "\<And>p. p \<in> set xs \<Longrightarrow> fst p \<le> v"
    using Cons.prems by auto
  show ?case
  proof (cases "fst x = v")
    case True
    then show ?thesis using Cons.IH[OF sorted top] by simp
  next
    case False
    then have "fst x < v" using Cons.prems(2)[of x] by simp
    then have "\<And>p. p \<in> set xs \<Longrightarrow> fst p \<noteq> v" using below by force
    then have "filter (\<lambda>p. fst p = v) xs = []" "filter (\<lambda>p. fst p \<noteq> v) xs = xs"
      by (simp_all add: filter_empty_conv filter_id_conv)
    then show ?thesis using False by simp
  qed
qed

lemma descending_hd_max:
  fixes xs :: "(real \<times> bool) list"
  shows "sorted_wrt (\<lambda>a b. fst b \<le> fst a) xs \<Longrightarrow> p \<in> set xs \<Longrightarrow> fst p \<le> fst (hd xs)"
  by (cases xs) auto

lemma emitted_tie_order:
  fixes xs ys :: "(real \<times> bool) list"
  assumes "mset xs = mset ys"
    and "sorted_wrt (\<lambda>a b. fst b \<le> fst a) xs"
    and "sorted_wrt (\<lambda>a b. fst b \<le> fst a) ys"
  shows "emitted P N xs tp fp prev = emitted P N ys tp fp prev"
  using assms
proof (induction "length xs" arbitrary: xs ys tp fp prev rule: less_induct)
  case less
  show ?case
  proof (cases "xs = []")
    case True
    then show ?thesis using less.prems(1) by simp
  next
    case False
    then have yne: "ys \<noteq> []" using less.prems(1) by auto
    have sets: "set xs = set ys" using less.prems(1) by (rule mset_eq_setD)
    let ?v = "fst (hd xs)"
    have hx: "hd xs \<in> set xs" and hy: "hd ys \<in> set ys" using False yne by simp_all
    have topx: "\<And>p. p \<in> set xs \<Longrightarrow> fst p \<le> ?v"
      using less.prems(2) by (rule descending_hd_max)
    have "fst (hd ys) \<le> ?v" using topx hy sets by simp
    moreover have "?v \<le> fst (hd ys)"
      using descending_hd_max[OF less.prems(3), of "hd xs"] hx sets by simp
    ultimately have same: "fst (hd ys) = ?v" by simp
    have topy: "\<And>p. p \<in> set ys \<Longrightarrow> fst p \<le> ?v"
      using topx sets by simp
    let ?gx = "filter (\<lambda>p. fst p = ?v) xs" and ?rx = "filter (\<lambda>p. fst p \<noteq> ?v) xs"
    let ?gy = "filter (\<lambda>p. fst p = ?v) ys" and ?ry = "filter (\<lambda>p. fst p \<noteq> ?v) ys"
    have xs: "xs = ?gx @ ?rx" using less.prems(2) topx by (rule descending_split)
    have ys: "ys = ?gy @ ?ry" using less.prems(3) topy by (rule descending_split)
    have gx: "?gx \<noteq> []" using hx by (auto simp: filter_empty_conv)
    have gy: "?gy \<noteq> []" using hy same by (auto simp: filter_empty_conv)
    have mg: "mset ?gx = mset ?gy" and mr: "mset ?rx = mset ?ry"
      using less.prems(1) by simp_all
    have shorter: "length ?rx < length xs"
      using gx by (subst (2) xs) simp
    have sx: "sorted_wrt (\<lambda>a b. fst b \<le> fst a) ?rx" and sy: "sorted_wrt (\<lambda>a b. fst b \<le> fst a) ?ry"
      using less.prems(2,3) by (simp_all add: sorted_wrt_filter)
    have "emitted P N xs tp fp prev = emitted P N (?gx @ ?rx) tp fp prev"
      using xs by simp
    also have "\<dots> = (if ?v \<noteq> prev then [(prev, fp / N, tp / P)] else [])
       @ emitted P N ?rx (tp + npos ?gx) (fp + nneg ?gx) ?v"
      using gx by (intro emitted_tie_group) auto
    also have "\<dots> = (if ?v \<noteq> prev then [(prev, fp / N, tp / P)] else [])
       @ emitted P N ?ry (tp + npos ?gy) (fp + nneg ?gy) ?v"
      using less.hyps[OF shorter mr sx sy] npos_mset[OF mg] nneg_mset[OF mg] by simp
    also have "\<dots> = emitted P N (?gy @ ?ry) tp fp prev"
      using gy by (intro emitted_tie_group[symmetric]) auto
    also have "\<dots> = emitted P N ys tp fp prev"
      using ys by simp
    finally show ?thesis .
  qed
qed


lemma descending_sort_sort_descending: "descending_sort sort_descending"
  by (simp add: descending_sort_def sort_descending_sorted) (simp add: sort_descending_def)

lemma descending_last_eq:
  fixes xs ys :: "(real \<times> bool) list"
  assumes "mset xs = mset ys" and "xs \<noteq> []"
    and "sorted_wrt (\<lambda>a b. fst b \<le> fst a) xs"
    and "sorted_wrt (\<lambda>a b. fst b \<le> fst a) ys"
  shows "fst (last xs) = fst (last ys)"
proof -
  have sets: "set xs = set ys" using assms(1) by (rule mset_eq_setD)
  have yne: "ys \<noteq> []"
    using sets assms(2) by (metis set_empty)
  have x: "last xs \<in> set ys"
    using sets assms(2) by (metis last_in_set)
  have y: "last ys \<in> set xs"
    using sets yne by (metis last_in_set)
  have "fst (last ys) \<le> fst (last xs)"
    using assms(4) x by (rule descending_last)
  moreover have "fst (last xs) \<le> fst (last ys)"
    using assms(3) y by (rule descending_last)
  ultimately show ?thesis by simp
qed

text \<open>
  The curve does not depend on how the sorting routine arranges samples of equal
  score: every routine with the guarantees of \<^verbatim>\<open>std::sort\<close> gives the result of
  \<open>roc_curve\<close>.
\<close>

lemma roc_curve_any_sort:
  assumes "descending_sort sort_pairs"
  shows "roc_curve_with sort_pairs scores labels = roc_curve scores labels"
proof -
  let ?ps = "sort_pairs (zip scores labels)" and ?qs = "sort_descending (zip scores labels)"
  have m: "mset ?ps = mset ?qs"
    using assms descending_sort_sort_descending by (simp add: descending_sort_def)
  have sp: "sorted_wrt (\<lambda>a b. fst b \<le> fst a) ?ps"
    using assms by (simp add: descending_sort_def)
  have sq: "sorted_wrt (\<lambda>a b. fst b \<le> fst a) ?qs"
    by (rule sort_descending_sorted)
  have P: "npos ?ps = npos ?qs" and N: "nneg ?ps = nneg ?qs"
    using m by (rule npos_mset, rule nneg_mset)
  show ?thesis
  proof (cases "npos ?qs = 0 \<or> nneg ?qs = 0")
    case True
    then show ?thesis
      by (auto simp: roc_curve_def roc_curve_with_def Let_def count_classes_eq P N)
  next
    case False
    then have P0: "npos ?qs \<noteq> 0" and N0: "nneg ?qs \<noteq> 0" by auto
    have pne: "?ps \<noteq> []" using P0 P by (auto simp: npos_def)
    have qne: "?qs \<noteq> []" using P0 by (auto simp: npos_def)
    have l: "fst (last ?ps) = fst (last ?qs)"
      using m pne sp sq by (rule descending_last_eq)
    have e: "emitted (npos ?qs) (nneg ?qs) ?ps 0 0 DBL_MAX
           = emitted (npos ?qs) (nneg ?qs) ?qs 0 0 DBL_MAX"
      using m sp sq by (rule emitted_tie_order)
    have "sweep (npos ?qs) (nneg ?qs) ?ps initial_state
        = sweep (npos ?qs) (nneg ?qs) ?qs initial_state"
      using pne qne by (simp add: sweep_emitted[OF P0 N0] initial_state_def P N l e)
    then show ?thesis
      using False by (simp add: roc_curve_def roc_curve_with_def Let_def count_classes_eq P N)
  qed
qed

section \<open>Properties of the curve and of the AUC\<close>

text \<open>Facts for evaluating the functions on given inputs.\<close>

lemma DBL_MAX_neq:
  "x \<le> 1000000 \<Longrightarrow> (x = DBL_MAX) = False"
  "x \<le> 1000000 \<Longrightarrow> (DBL_MAX = x) = False"
  by (simp_all add: DBL_MAX_def)

lemmas roc_eval = saveRocDataToCSV_def roc_curve_def roc_curve_with_def sort_descending_def
  initial_state_def push_point_def fdiv_def count_sample_def auc_loop.simps write_rows.simps


text \<open>
  C2. For score and label vectors of equal, positive length with at least one positive
  and one negative label, the curve that is written starts with the row
  \<open>(DBL_MAX, 0, 0)\<close> and ends with the row \<open>(minimum score, 1, 1)\<close>; its false positive
  rates and its true positive rates do not decrease along the rows, and all of them lie
  between 0 and 1.
\<close>

theorem roc_curve_invariants:
  assumes "length scores = length labels" and "scores \<noteq> []"
    and "True \<in> set labels" and "False \<in> set labels"
  shows "\<exists>out rows. saveRocDataToCSV True scores labels = Some out
           \<and> csv_rows out = Some rows
           \<and> hd rows = (DBL_MAX, 0, 0)
           \<and> last rows = (Min (set scores), 1, 1)
           \<and> sorted (map row_fpr rows) \<and> sorted (map row_tpr rows)
           \<and> (\<forall>r \<in> set rows. 0 \<le> row_fpr r \<and> row_fpr r \<le> 1
                                \<and> 0 \<le> row_tpr r \<and> row_tpr r \<le> 1)"
  using saveRoc_valid[OF assms, of True] roc_rows_shape[OF assms]
  by simp

theorem roc_curve_invariants_witness:
  "\<exists>out rows. saveRocDataToCSV True [9, 4, 7] [True, False, False] = Some out
           \<and> csv_rows out = Some rows
           \<and> rows = [(DBL_MAX, 0, 0), (DBL_MAX, 0, 0), (9, 0, 1), (7, 1 / 2, 1),
                       (4, 1, 1)]
           \<and> hd rows = (DBL_MAX, 0, 0)
           \<and> last rows = (Min (set [9, 4, 7]), 1, 1)
           \<and> sorted (map row_fpr rows) \<and> sorted (map row_tpr rows)
           \<and> (\<forall>r \<in> set rows. 0 \<le> row_fpr r \<and> row_fpr r \<le> 1
                                \<and> 0 \<le> row_tpr r \<and> row_tpr r \<le> 1)"
proof -
  have ev: "saveRocDataToCSV True [9, 4, 7] [True, False, False] =
    Some \<lparr>returned = 1,
          csv_rows = Some [(DBL_MAX, 0, 0), (DBL_MAX, 0, 0), (9, 0, 1),
                           (7, 1 / 2, 1), (4, 1, 1)],
          cerr = []\<rparr>"
    by (simp add: roc_eval DBL_MAX_neq)
  from roc_curve_invariants[of "[9, 4, 7]" "[True, False, False]"]
  show ?thesis
    unfolding ev by simp
qed

text \<open>
  C3. For score and label vectors of equal length with at least one positive and one
  negative label, the returned AUC is the trapezoidal sum over the consecutive rows of
  the curve, it lies between 0 and 1, and it is the same whether or not the output file
  can be opened.
\<close>

theorem auc_trapezoidal:
  assumes "length scores = length labels"
    and "True \<in> set labels" and "False \<in> set labels"
  shows "\<exists>out rows. saveRocDataToCSV True scores labels = Some out
           \<and> csv_rows out = Some rows
           \<and> returned out = trapezoidal_sum rows
           \<and> 0 \<le> returned out \<and> returned out \<le> 1
           \<and> map_option returned (saveRocDataToCSV False scores labels) = Some (returned out)"
proof -
  have ne: "scores \<noteq> []" using assms by auto
  note shape = roc_rows_shape[OF assms(1) ne assms(2,3)]
  let ?R = "roc_rows scores labels"
  have Rne: "?R \<noteq> []" by (simp add: roc_rows_def Let_def)
  have "0 \<le> trapezoidal_sum ?R \<and> trapezoidal_sum ?R \<le> row_fpr (last ?R) - row_fpr (hd ?R)"
    using shape(3,5) Rne by (intro trapezoidal_sum_bounds) auto
  then have "0 \<le> trapezoidal_sum ?R \<and> trapezoidal_sum ?R \<le> 1"
    by (simp add: shape(1,2) row_fpr_def)
  then show ?thesis
    using saveRoc_valid[OF assms(1) ne assms(2,3), of True]
      saveRoc_valid[OF assms(1) ne assms(2,3), of False]
    by simp
qed

theorem auc_trapezoidal_witness:
  "\<exists>out rows. saveRocDataToCSV True [9, 8, 7, 6] [True, False, True, False]
               = Some out
           \<and> csv_rows out = Some rows
           \<and> returned out = trapezoidal_sum rows
           \<and> returned out = 3 / 4
           \<and> 0 \<le> returned out \<and> returned out \<le> 1
           \<and> map_option returned
                (saveRocDataToCSV False [9, 8, 7, 6] [True, False, True, False])
               = Some (returned out)"
proof -
  have ev: "map_option returned
      (saveRocDataToCSV True [9, 8, 7, 6] [True, False, True, False])
      = Some (3 / 4)"
    by (simp add: roc_eval DBL_MAX_neq)
  from auc_trapezoidal[of "[9, 8, 7, 6]" "[True, False, True, False]"] ev
  show ?thesis
    by auto
qed

lemma emitted_constant:
  "(\<And>x. x \<in> set pairs \<Longrightarrow> fst x = c) \<Longrightarrow>
   emitted P N pairs tp fp prev =
     (if pairs \<noteq> [] \<and> c \<noteq> prev then [(prev, fp / N, tp / P)] else [])"
proof (induction pairs arbitrary: tp fp prev)
  case Nil
  then show ?case by simp
next
  case (Cons x pairs)
  obtain score label where x: "x = (score, label)" by (cases x)
  have c: "score = c" using Cons.prems[of x] by (simp add: x)
  have rest: "\<And>y. y \<in> set pairs \<Longrightarrow> fst y = c" using Cons.prems by simp
  show ?case
    using Cons.IH[OF rest] by (simp add: x c)
qed

lemma emitted_length:
  "sorted_wrt (\<lambda>a b. fst b \<le> fst a) pairs \<Longrightarrow> (\<And>x. x \<in> set pairs \<Longrightarrow> fst x \<le> prev) \<Longrightarrow>
   length (emitted P N pairs tp fp prev) = card (fst ` set pairs - {prev})"
proof (induction pairs arbitrary: tp fp prev)
  case Nil
  then show ?case by simp
next
  case (Cons x pairs)
  obtain score label where x: "x = (score, label)" by (cases x)
  have sorted: "sorted_wrt (\<lambda>a b. fst b \<le> fst a) pairs"
    and below: "\<And>y. y \<in> set pairs \<Longrightarrow> fst y \<le> score"
    using Cons.prems(1) by (auto simp: x)
  have le: "score \<le> prev" using Cons.prems(2)[of x] by (simp add: x)
  show ?case
  proof (cases "score = prev")
    case True
    have "fst ` set (x # pairs) - {prev} = fst ` set pairs - {prev}"
      by (auto simp: x True)
    then show ?thesis
      using Cons.IH[OF sorted, of prev] below by (simp add: x True)
  next
    case False
    then have lt: "score < prev" using le by simp
    have notin: "prev \<notin> fst ` set pairs" using below lt by force
    have eq: "fst ` set (x # pairs) - {prev} = insert score (fst ` set pairs - {score})"
      using notin False by (auto simp: x)
    have c: "card (insert score (fst ` set pairs - {score}))
               = Suc (card (fst ` set pairs - {score}))"
      by (intro card_insert_disjoint) auto
    have l: "length (emitted P N (x # pairs) tp fp prev) = Suc (card (fst ` set pairs - {score}))"
      using Cons.IH[OF sorted, of score] below False by (simp add: x)
    show ?thesis
      by (simp only: eq c l)
  qed
qed

lemma emitted_first:
  "pairs \<noteq> [] \<Longrightarrow> fst (hd pairs) \<noteq> prev \<Longrightarrow>
   \<exists>rest. emitted P N pairs tp fp prev = (prev, fp / N, tp / P) # rest"
  by (cases pairs) auto

lemma trapezoidal_sum_three:
  "trapezoidal_sum [(a, 0, 0), (b, 0, 0), (c, 1, 1)] = 1 / 2"
  by (simp add: trapezoidal_sum_def row_fpr_def row_tpr_def numeral_3_eq_3 sum.atLeast_Suc_lessThan)

lemma trapezoidal_sum_two:
  "trapezoidal_sum [(a, 0, 0), (c, 1, 1)] = 1 / 2"
  by (simp add: trapezoidal_sum_def row_fpr_def row_tpr_def numeral_2_eq_2 sum.atLeast_Suc_lessThan)

lemma roc_rows_constant:
  assumes len: "length scores = length labels"
    and same: "\<And>x. x \<in> set scores \<Longrightarrow> x = s"
    and pos: "True \<in> set labels" and neg: "False \<in> set labels"
  shows "roc_rows scores labels =
     (if s = DBL_MAX then [(DBL_MAX, 0, 0), (DBL_MAX, 1, 1)]
      else [(DBL_MAX, 0, 0), (DBL_MAX, 0, 0), (s, 1, 1)])"
proof -
  have ne: "scores \<noteq> []" using len pos by auto
  let ?pairs = "sort_descending (zip scores labels)"
  let ?P = "npos ?pairs" and ?N = "nneg ?pairs"
  have P: "0 < ?P" using npos_zip_pos[OF len pos] by (simp add: npos_sort)
  have N: "0 < ?N" using nneg_zip_pos[OF len neg] by (simp add: nneg_sort)
  have pne: "?pairs \<noteq> []"
    using len ne by (auto simp: sort_descending_def dest: arg_cong[where f=length])
  have all: "fst x = s" if "x \<in> set ?pairs" for x
    using that set_fst_sort_descending[OF len] same by (metis imageI)
  have last: "fst (last ?pairs) = s"
    using pne all by simp
  show ?thesis
    using P N pne by (simp add: roc_rows_def Let_def last emitted_constant[of ?pairs s, OF all])
qed


text \<open>
  C9, as the code has it. When all samples have the same score \<open>s\<close> and both classes
  are present, no division by zero takes place, the AUC is \<open>1/2\<close>, and the curve is
  \<open>(DBL_MAX, 0, 0), (DBL_MAX, 0, 0), (s, 1, 1)\<close>: the second row carries the threshold
  \<open>DBL_MAX\<close>, not \<open>s\<close>. When \<open>s\<close> is \<open>DBL_MAX\<close> itself the curve has the two rows
  \<open>(DBL_MAX, 0, 0), (DBL_MAX, 1, 1)\<close>.
\<close>

theorem constant_scores_curve:
  assumes "length scores = length labels"
    and "\<forall>x \<in> set scores. x = s"
    and "True \<in> set labels" and "False \<in> set labels"
  shows "saveRocDataToCSV True scores labels =
           Some \<lparr>returned = 1 / 2,
                 csv_rows = Some (if s = DBL_MAX then [(DBL_MAX, 0, 0), (DBL_MAX, 1, 1)]
                                  else [(DBL_MAX, 0, 0), (DBL_MAX, 0, 0), (s, 1, 1)]),
                 cerr = []\<rparr>"
proof -
  have ne: "scores \<noteq> []" using assms by auto
  have same: "\<And>x. x \<in> set scores \<Longrightarrow> x = s" using assms(2) by blast
  show ?thesis
    using saveRoc_valid[OF assms(1) ne assms(3,4), of True]
    by (simp add: roc_rows_constant[OF assms(1) same assms(3,4)]
        trapezoidal_sum_three trapezoidal_sum_two)
qed

theorem constant_scores_curve_witness:
  "saveRocDataToCSV True [1, 1, 1] [True, False, True] =
     Some \<lparr>returned = 1 / 2,
           csv_rows = Some [(DBL_MAX, 0, 0), (DBL_MAX, 0, 0), (1, 1, 1)],
           cerr = []\<rparr>"
  using constant_scores_curve[of "[1, 1, 1]" "[True, False, True]" 1]
  by (simp add: DBL_MAX_neq)

text \<open>
  C9 as it is stated fails on two samples of score 1, one of each class: the second row
  is \<open>(DBL_MAX, 0, 0)\<close>, not \<open>(1, 0, 0)\<close>.
\<close>

theorem constant_scores_curve_counterexample:
  "map_option csv_rows (saveRocDataToCSV True [1, 1] [True, False]) =
     Some (Some [(DBL_MAX, 0, 0), (DBL_MAX, 0, 0), (1, 1, 1)])
   \<and> [(DBL_MAX, 0, 0), (DBL_MAX, 0, 0), (1, 1, 1)] \<noteq> [(DBL_MAX, 0, 0), (1, 0, 0), (1, 1, 1)]"
  by (simp add: roc_eval DBL_MAX_neq)

text \<open>
  C10. For score and label vectors of equal length with both classes present and all
  scores below \<open>DBL_MAX\<close>, the curve starts with two rows \<open>(DBL_MAX, 0, 0)\<close> and has
  two rows more than there are distinct scores.
\<close>

theorem duplicate_first_point:
  assumes "length scores = length labels"
    and "True \<in> set labels" and "False \<in> set labels"
    and "\<forall>x \<in> set scores. x < DBL_MAX"
  shows "\<exists>out rows. saveRocDataToCSV True scores labels = Some out
           \<and> csv_rows out = Some rows
           \<and> take 2 rows = [(DBL_MAX, 0, 0), (DBL_MAX, 0, 0)]
           \<and> length rows = card (set scores) + 2"
proof -
  have ne: "scores \<noteq> []" using assms by auto
  let ?pairs = "sort_descending (zip scores labels)"
  let ?P = "npos ?pairs" and ?N = "nneg ?pairs"
  let ?E = "emitted ?P ?N ?pairs 0 0 DBL_MAX"
  have pne: "?pairs \<noteq> []"
    using assms(1) ne by (auto simp: sort_descending_def dest: arg_cong[where f=length])
  have below: "fst x < DBL_MAX" if "x \<in> set ?pairs" for x
    using that set_fst_sort_descending[OF assms(1)] assms(4) by (metis imageI)
  have below': "\<And>x. x \<in> set ?pairs \<Longrightarrow> fst x \<le> DBL_MAX"
    using below by (simp add: less_imp_le)
  have notin: "DBL_MAX \<notin> fst ` set ?pairs"
    using below by force
  have "length ?E = card (fst ` set ?pairs - {DBL_MAX})"
    using sort_descending_sorted below' by (rule emitted_length)
  then have len: "length ?E = card (set scores)"
    using notin by (simp add: set_fst_sort_descending[OF assms(1)])
  have "fst (hd ?pairs) \<noteq> DBL_MAX"
    using below[of "hd ?pairs"] pne by simp
  from emitted_first[OF pne this, of ?P ?N 0 0]
  obtain rest where E: "?E = (DBL_MAX, 0, 0) # rest"
    by auto
  have R: "roc_rows scores labels
             = (DBL_MAX, 0, 0) # ?E @ [(fst (last ?pairs), ?N / ?N, ?P / ?P)]"
    by (simp add: roc_rows_def Let_def)
  have "take 2 (roc_rows scores labels) = [(DBL_MAX, 0, 0), (DBL_MAX, 0, 0)]"
    unfolding R E by (simp add: numeral_2_eq_2)
  moreover have "length (roc_rows scores labels) = card (set scores) + 2"
    unfolding R by (simp add: len)
  ultimately show ?thesis
    using saveRoc_valid[OF assms(1) ne assms(2,3), of True] by simp
qed

theorem duplicate_first_point_witness:
  "\<exists>out rows. saveRocDataToCSV True [3, 1, 3, 2] [True, False, False, True] = Some out
           \<and> csv_rows out = Some rows
           \<and> rows = [(DBL_MAX, 0, 0), (DBL_MAX, 0, 0), (3, 1 / 2, 1 / 2), (2, 1 / 2, 1), (1, 1, 1)]
           \<and> take 2 rows = [(DBL_MAX, 0, 0), (DBL_MAX, 0, 0)]
           \<and> length rows = card (set [3, 1, 3, 2 :: real]) + 2"
proof -
  have ev: "saveRocDataToCSV True [3, 1, 3, 2] [True, False, False, True] =
    Some \<lparr>returned = 5 / 8,
          csv_rows = Some [(DBL_MAX, 0, 0), (DBL_MAX, 0, 0), (3, 1 / 2, 1 / 2), (2, 1 / 2, 1),
                           (1, 1, 1)],
          cerr = []\<rparr>"
    by (simp add: roc_eval DBL_MAX_neq)
  have small: "\<forall>x \<in> set [3, 1, 3, 2 :: real]. x < DBL_MAX"
    by (simp add: DBL_MAX_def)
  from duplicate_first_point[of "[3, 1, 3, 2]" "[True, False, False, True]", OF _ _ _ small]
  show ?thesis
    unfolding ev by simp
qed

section \<open>The orchestrator\<close>

lemma class_scores_Nil [simp]: "class_scores c [] labels = []" "class_scores c scores [] = []"
  by (simp_all add: class_scores_def)

lemma class_scores_Cons [simp]:
  "class_scores c (s # scores) (l # labels) =
     (if l = c then s # class_scores c scores labels else class_scores c scores labels)"
  by (simp add: class_scores_def)

lemma class_sums_eq:
  "length scores \<le> length labels \<Longrightarrow>
   class_sums scores labels (a, wrap32 pc, b, wrap32 nc) =
     Some (a + sum_list (class_scores True scores labels),
           wrap32 (pc + int (length (class_scores True scores labels))),
           b + sum_list (class_scores False scores labels),
           wrap32 (nc + int (length (class_scores False scores labels))))"
proof (induction scores arbitrary: labels a pc b nc)
  case Nil
  then show ?case by simp
next
  case (Cons s scores)
  then obtain l ls where L: "labels = l # ls"
    by (cases labels) auto
  with Cons.prems have len: "length scores \<le> length ls"
    by simp
  show ?case
    using Cons.IH[OF len, of "a + s" "pc + 1" b nc] Cons.IH[OF len, of a pc "b + s" "nc + 1"]
    by (simp add: L int_add_def wrap32_add_left add.assoc add.commute[of 1])
qed

lemma class_scores_length:
  "length scores = length labels \<Longrightarrow>
   int (length (class_scores c scores labels)) = count_label c labels"
  by (induction scores labels rule: list_induct2) (auto simp: count_label_def)

lemma derive_threshold_eq:
  assumes "length scores \<le> length labels"
  shows "derive_threshold scores labels =
     Some (((if 0 < wrap32 (int (length (class_scores True scores labels)))
             then sum_list (class_scores True scores labels)
                    / real_of_int (wrap32 (int (length (class_scores True scores labels))))
             else sum_list (class_scores True scores labels))
            + (if 0 < wrap32 (int (length (class_scores False scores labels)))
               then sum_list (class_scores False scores labels)
                      / real_of_int (wrap32 (int (length (class_scores False scores labels))))
               else sum_list (class_scores False scores labels))) / 2)"
  using class_sums_eq[OF assms, of 0 0 0 0]
  by (simp add: derive_threshold_def wrap32_0 fdiv_def)

lemma derive_threshold_total:
  assumes "length scores \<le> length labels"
  shows "\<exists>t. derive_threshold scores labels = Some t"
  using derive_threshold_eq[OF assms] by blast

lemma saveRoc_degenerate:
  assumes len: "length scores = length labels" and ne: "scores \<noteq> []"
    and deg: "True \<notin> set labels \<or> False \<notin> set labels"
  shows "saveRocDataToCSV file_opens scores labels =
           Some \<lparr>returned = 0, csv_rows = None, cerr = [MissingClass]\<rparr>"
proof -
  let ?pairs = "sort_descending (zip scores labels)"
  have "npos ?pairs = 0 \<or> nneg ?pairs = 0"
    using deg npos_zip_zero[of labels scores] nneg_zip_zero[of labels scores]
    by (auto simp: npos_sort nneg_sort)
  then have "roc_curve scores labels = Some (Inl MissingClass)"
    by (auto simp: roc_curve_def roc_curve_with_def Let_def count_classes_eq)
  then show ?thesis
    using len ne by (simp add: saveRocDataToCSV_def)
qed

lemma saveRoc_total: "\<exists>out. saveRocDataToCSV file_opens scores labels = Some out"
proof (cases "length scores \<noteq> length labels \<or> scores = []")
  case True
  then show ?thesis by (auto simp: saveRocDataToCSV_def)
next
  case False
  then have len: "length scores = length labels" and ne: "scores \<noteq> []" by auto
  show ?thesis
  proof (cases "True \<in> set labels \<and> False \<in> set labels")
    case True
    then show ?thesis using saveRoc_valid[OF len ne, of file_opens] by simp
  next
    case False
    then show ?thesis using saveRoc_degenerate[OF len ne, of file_opens] by auto
  qed
qed

lemma calculateMetrics_dom:
  assumes "calculateMetrics cm = Some m"
  shows "dom m = {''true_positives'', ''false_positives'', ''true_negatives'',
                  ''false_negatives'', ''accuracy'', ''precision'', ''recall'',
                  ''specificity'', ''f1_score''}"
proof -
  from calculateMetrics_total[of cm] obtain m' where
    "calculateMetrics cm = Some m'"
    "dom m' = {''true_positives'', ''false_positives'', ''true_negatives'',
                  ''false_negatives'', ''accuracy'', ''precision'', ''recall'',
                  ''specificity'', ''f1_score''}"
    by (elim exE conjE)
  with assms show ?thesis by simp
qed

lemma evaluateAlgorithm_valid:
  assumes len: "length scores = length labels" and ne: "scores \<noteq> []"
  shows "\<exists>t cm m roc.
     (if threshold < 0 then derive_threshold scores labels else Some threshold) = Some t
     \<and> calculateConfusionMatrix scores labels t = Some cm
     \<and> calculateMetrics cm = Some m
     \<and> saveRocDataToCSV file_opens scores labels = Some roc
     \<and> evaluateAlgorithm file_opens scores labels threshold =
         Some \<lparr>results = m(''threshold'' \<mapsto> t, ''auc'' \<mapsto> returned roc),
               roc_stage = Some roc, eval_cerr = []\<rparr>"
proof -
  obtain t where t: "(if threshold < 0 then derive_threshold scores labels else Some threshold) = Some t"
    using derive_threshold_total[of scores labels] len by (cases "threshold < 0") auto
  obtain cm where cm: "calculateConfusionMatrix scores labels t = Some cm"
    using calculateConfusionMatrix_counts[of scores labels t] len by simp
  from calculateMetrics_total[of cm] obtain m where m: "calculateMetrics cm = Some m"
    by (elim exE conjE)
  obtain roc where roc: "saveRocDataToCSV file_opens scores labels = Some roc"
    using saveRoc_total by blast
  have "evaluateAlgorithm file_opens scores labels threshold =
         Some \<lparr>results = m(''threshold'' \<mapsto> t, ''auc'' \<mapsto> returned roc),
               roc_stage = Some roc, eval_cerr = []\<rparr>"
    using len ne t cm m roc unfolding evaluateAlgorithm_def by simp
  with t cm m roc show ?thesis by blast
qed

text \<open>
  C8. When the score and label vectors differ in length, or are empty,
  \<open>evaluateAlgorithm\<close> writes the error line and returns the map that holds the single
  entry \<open>error \<mapsto> 1\<close>: no metric, threshold or AUC entry is produced, and the ROC stage
  is not called.
\<close>

theorem invalid_input_rejected:
  assumes "length scores \<noteq> length labels \<or> scores = []"
  shows "evaluateAlgorithm file_opens scores labels threshold =
           Some \<lparr>results = [''error'' \<mapsto> 1], roc_stage = None, eval_cerr = [InvalidInput]\<rparr>"
  using assms by (simp add: evaluateAlgorithm_def)

theorem invalid_input_rejected_witness:
  "evaluateAlgorithm True [1, 2, 3] [True, False] (1 / 2) =
     Some \<lparr>results = [''error'' \<mapsto> 1], roc_stage = None, eval_cerr = [InvalidInput]\<rparr>
   \<and> evaluateAlgorithm True [] [] (1 / 2) =
     Some \<lparr>results = [''error'' \<mapsto> 1], roc_stage = None, eval_cerr = [InvalidInput]\<rparr>"
  using invalid_input_rejected[of "[1, 2, 3]" "[True, False]" True "1 / 2"]
    invalid_input_rejected[of "[]" "[]" True "1 / 2"]
  by simp

subsection \<open>The derived threshold\<close>

text \<open>
  The single loop over the samples computes, for each class, the rounded sum of its
  scores in input order and the number of its samples.
\<close>

lemma bind_None_right: "(x \<bind> (\<lambda>_. None)) = (None :: 'b option)"
  by (cases x) simp_all

lemma incr_Some: "c < INT_MAX \<Longrightarrow> incr c = Some (c + 1)"
  by (simp add: incr_def)

lemma class_sums_fl_eq:
  "length scores \<le> length labels \<Longrightarrow>
   pc + int (length (class_scores True scores labels)) \<le> INT_MAX \<Longrightarrow>
   nc + int (length (class_scores False scores labels)) \<le> INT_MAX \<Longrightarrow>
   class_sums_fl fl scores labels (ap, pc, an, nc) =
     do {
       p \<leftarrow> fl_sum fl ap (class_scores True scores labels);
       n \<leftarrow> fl_sum fl an (class_scores False scores labels);
       Some (p, pc + int (length (class_scores True scores labels)),
             n, nc + int (length (class_scores False scores labels)))
     }"
proof (induction scores arbitrary: labels ap pc an nc)
  case Nil
  then show ?case by simp
next
  case (Cons s scores)
  then obtain l ls where L: "labels = l # ls"
    by (cases labels) auto
  with Cons.prems have len: "length scores \<le> length ls"
    by simp
  show ?case
  proof (cases l)
    case True
    have pc: "pc < INT_MAX"
      and b1: "\<And>a. (pc + 1) + int (length (class_scores True scores ls)) \<le> INT_MAX"
      and b2: "nc + int (length (class_scores False scores ls)) \<le> INT_MAX"
      using Cons.prems(2,3) by (simp_all add: L True)
    show ?thesis
    proof (cases "fl (ap + s)")
      case None
      then show ?thesis by (simp add: L True)
    next
      case (Some a)
      then show ?thesis
        using Cons.IH[OF len b1 b2, of a an] by (simp add: L True incr_Some[OF pc] add.assoc)
    qed
  next
    case False
    have nc: "nc < INT_MAX"
      and b1: "pc + int (length (class_scores True scores ls)) \<le> INT_MAX"
      and b2: "(nc + 1) + int (length (class_scores False scores ls)) \<le> INT_MAX"
      using Cons.prems(2,3) by (simp_all add: L False)
    show ?thesis
    proof (cases "fl (an + s)")
      case None
      then show ?thesis by (simp add: L False bind_None_right)
    next
      case (Some a)
      then show ?thesis
        using Cons.IH[OF len b1 b2, of ap a] by (simp add: L False incr_Some[OF nc] add.assoc)
    qed
  qed
qed

lemma derive_threshold_fl_midpoint:
  assumes len: "length scores = length labels"
    and small: "count_label True labels \<le> INT_MAX" "count_label False labels \<le> INT_MAX"
  shows "derive_threshold_fl fl scores labels = fl_midpoint_of_means fl scores labels"
proof -
  let ?p = "class_scores True scores labels" and ?n = "class_scores False scores labels"
  have b: "0 + int (length ?p) \<le> INT_MAX" "0 + int (length ?n) \<le> INT_MAX"
    using class_scores_length[OF len] small by simp_all
  have sums: "class_sums_fl fl scores labels (0, 0, 0, 0) =
     do { p \<leftarrow> fl_sum fl 0 ?p; n \<leftarrow> fl_sum fl 0 ?n;
          Some (p, int (length ?p), n, int (length ?n)) }"
    using class_sums_fl_eq[OF _ b, of fl 0 0] len by simp
  show ?thesis
  proof (cases "fl_sum fl 0 ?p")
    case None
    then show ?thesis
      by (cases "?p = []")
         (simp_all add: derive_threshold_fl_def sums fl_midpoint_of_means_def fl_class_mean_def)
  next
    case P: (Some p)
    show ?thesis
    proof (cases "fl_sum fl 0 ?n")
      case None
      then show ?thesis
        using P
        by (cases "?n = []")
           (simp_all add: derive_threshold_fl_def sums fl_midpoint_of_means_def
              fl_class_mean_def bind_None_right)
    next
      case N: (Some n)
      have p0: "p = 0" if "?p = []" using that P by simp
      have n0: "n = 0" if "?n = []" using that N by simp
      show ?thesis
      proof (cases "?p = []")
        case True
        then show ?thesis
          using P N p0 n0
          by (cases "?n = []")
             (simp_all add: derive_threshold_fl_def sums fl_midpoint_of_means_def
                fl_class_mean_def fl_div_def)
      next
        case False
        show ?thesis
        proof (cases "fl (p / real (length ?p))")
          case None
          then show ?thesis
            using P N False
            by (simp add: derive_threshold_fl_def sums fl_midpoint_of_means_def
                fl_class_mean_def fl_div_def)
        next
          case (Some mp)
          then show ?thesis
            using P N False n0
            by (cases "?n = []")
               (simp_all add: derive_threshold_fl_def sums fl_midpoint_of_means_def
                  fl_class_mean_def fl_div_def)
        qed
      qed
    qed
  qed
qed

text \<open>
  C7, in \<^verbatim>\<open>double\<close> arithmetic, while the counters and the sums stay in range. For
  score and label vectors of equal, positive length with at most \<open>2^31 - 1\<close> positive
  and at most \<open>2^31 - 1\<close> negative labels, and a negative threshold argument: when
  the midpoint of the two class means, computed in \<^verbatim>\<open>double\<close> arithmetic (the scores
  of a class added in input order, every sum, each mean and the midpoint rounded, the
  mean of an empty class being \<open>0\<close>), is a finite number \<open>t\<close>, then the confusion
  matrix is computed at \<open>t\<close> and \<open>t\<close> is the \<open>threshold\<close> entry of the returned map.
  This holds for every rounding \<open>fl\<close>.
\<close>

theorem default_threshold_midpoint:
  assumes "length scores = length labels" and "scores \<noteq> []"
    and "threshold < 0"
    and "count_label True labels \<le> INT_MAX" and "count_label False labels \<le> INT_MAX"
    and "fl_midpoint_of_means fl scores labels = Some t"
  shows "\<exists>cm m roc.
           calculateConfusionMatrix scores labels t = Some cm
           \<and> calculateMetrics cm = Some m
           \<and> evaluateAlgorithm_fl fl file_opens scores labels threshold =
               Some \<lparr>results = m(''threshold'' \<mapsto> t, ''auc'' \<mapsto> returned roc),
                     roc_stage = Some roc, eval_cerr = []\<rparr>"
proof -
  have d: "derive_threshold_fl fl scores labels = Some t"
    using derive_threshold_fl_midpoint[OF assms(1,4,5), of fl] assms(6) by simp
  obtain cm where cm: "calculateConfusionMatrix scores labels t = Some cm"
    using calculateConfusionMatrix_counts[of scores labels t] assms(1) by simp
  from calculateMetrics_total[of cm] obtain m where m: "calculateMetrics cm = Some m"
    by (elim exE conjE)
  obtain roc where roc: "saveRocDataToCSV file_opens scores labels = Some roc"
    using saveRoc_total by blast
  have "evaluateAlgorithm_fl fl file_opens scores labels threshold =
         Some \<lparr>results = m(''threshold'' \<mapsto> t, ''auc'' \<mapsto> returned roc),
               roc_stage = Some roc, eval_cerr = []\<rparr>"
    using assms(1,2,3) d cm m roc unfolding evaluateAlgorithm_fl_def by simp
  with cm m show ?thesis by blast
qed

lemma finite_exact_small: "\<bar>x\<bar> \<le> 1000000 \<Longrightarrow> finite_exact x = Some x"
  by (simp add: finite_exact_def DBL_MAX_def)

text \<open>
  With the rounding that returns every exact result, and while no counter passes
  \<open>INT_MAX\<close>, the orchestrator in \<^verbatim>\<open>double\<close> arithmetic is \<open>evaluateAlgorithm\<close>.
\<close>

lemma fl_sum_exact: "fl_sum Some acc xs = Some (acc + sum_list xs)"
  by (induction xs arbitrary: acc) (simp_all add: add.assoc)

lemma fl_midpoint_of_means_exact:
  "fl_midpoint_of_means Some scores labels = Some (midpoint_of_means scores labels)"
  by (simp add: fl_midpoint_of_means_def fl_class_mean_def midpoint_of_means_def class_mean_def
      fl_sum_exact Let_def)

lemma derive_threshold_midpoint:
  assumes len: "length scores = length labels"
    and small: "count_label True labels \<le> INT_MAX" "count_label False labels \<le> INT_MAX"
  shows "derive_threshold scores labels = Some (midpoint_of_means scores labels)"
proof -
  let ?p = "class_scores True scores labels" and ?n = "class_scores False scores labels"
  have b: "int (length ?p) \<le> 2147483647" "int (length ?n) \<le> 2147483647"
    using class_scores_length[OF len] small by (simp_all add: INT_MAX_def)
  have w: "wrap32 (int (length ?p)) = int (length ?p)" "wrap32 (int (length ?n)) = int (length ?n)"
    using b by (simp_all add: wrap32_id)
  have sums: "class_sums scores labels (0, 0, 0, 0) =
     Some (sum_list ?p, int (length ?p), sum_list ?n, int (length ?n))"
    using class_sums_eq[of scores labels 0 0 0 0] len by (simp add: wrap32_0 w)
  show ?thesis
    by (simp add: derive_threshold_def sums fdiv_def midpoint_of_means_def class_mean_def Let_def)
qed

lemma evaluateAlgorithm_fl_exact:
  assumes "length scores = length labels"
    and "count_label True labels \<le> INT_MAX" and "count_label False labels \<le> INT_MAX"
  shows "evaluateAlgorithm_fl Some file_opens scores labels threshold =
           evaluateAlgorithm file_opens scores labels threshold"
proof -
  have "derive_threshold_fl Some scores labels = derive_threshold scores labels"
    using derive_threshold_fl_midpoint[OF assms, of Some] derive_threshold_midpoint[OF assms]
    by (simp add: fl_midpoint_of_means_exact)
  then show ?thesis
    by (simp add: evaluateAlgorithm_fl_def evaluateAlgorithm_def)
qed

text \<open>
  Two instances: one in which every exact result is a \<^verbatim>\<open>double\<close>, and one with the
  rounding to quarters, in which the rounded midpoint \<open>1/4\<close> puts the sample of score
  \<open>1/4\<close> among the true negatives (the exact midpoint \<open>1/8\<close> would make it a false
  positive). On the first input the orchestrator with exact arithmetic returns the same.
\<close>

theorem default_threshold_midpoint_witness:
  "fl_midpoint_of_means finite_exact [1, 2, 3] [True, False, True] = Some 2
   \<and> (\<exists>m roc.
         calculateConfusionMatrix [1, 2, 3] [True, False, True] 2 = Some (1, 0, 1, 1)
         \<and> calculateMetrics (1, 0, 1, 1) = Some m
         \<and> evaluateAlgorithm_fl finite_exact True [1, 2, 3] [True, False, True] (- 1) =
             Some \<lparr>results = m(''threshold'' \<mapsto> 2, ''auc'' \<mapsto> returned roc),
                   roc_stage = Some roc, eval_cerr = []\<rparr>)
   \<and> fl_midpoint_of_means quarter_rounding [0, 0, 1 / 4] [True, True, False] = Some (1 / 4)
   \<and> (\<exists>m roc.
         calculateConfusionMatrix [0, 0, 1 / 4] [True, True, False] (1 / 4) = Some (0, 0, 1, 2)
         \<and> calculateMetrics (0, 0, 1, 2) = Some m
         \<and> evaluateAlgorithm_fl quarter_rounding True [0, 0, 1 / 4] [True, True, False] (- 1) =
             Some \<lparr>results = m(''threshold'' \<mapsto> 1 / 4, ''auc'' \<mapsto> returned roc),
                   roc_stage = Some roc, eval_cerr = []\<rparr>)
   \<and> evaluateAlgorithm_fl Some True [1, 2, 3] [True, False, True] (- 1) =
       evaluateAlgorithm True [1, 2, 3] [True, False, True] (- 1)"
proof -
  have mid: "fl_midpoint_of_means finite_exact [1, 2, 3] [True, False, True] = Some 2"
    by (simp add: fl_midpoint_of_means_def fl_class_mean_def class_scores_def finite_exact_small)
  have cm: "calculateConfusionMatrix [1, 2, 3] [True, False, True] 2 = Some (1, 0, 1, 1)"
    by (simp add: calculateConfusionMatrix_def tally_def int_add_def wrap32_def)
  have midq: "fl_midpoint_of_means quarter_rounding [0, 0, 1 / 4] [True, True, False] = Some (1 / 4)"
    by (simp add: fl_midpoint_of_means_def fl_class_mean_def class_scores_def quarter_rounding_def)
  have cmq: "calculateConfusionMatrix [0, 0, 1 / 4] [True, True, False] (1 / 4) = Some (0, 0, 1, 2)"
    by (simp add: calculateConfusionMatrix_def tally_def int_add_def wrap32_def)
  have c: "count_label True [True, False, True] \<le> INT_MAX"
    "count_label False [True, False, True] \<le> INT_MAX"
    "count_label True [True, True, False] \<le> INT_MAX"
    "count_label False [True, True, False] \<le> INT_MAX"
    by (simp_all add: count_label_def INT_MAX_def)
  from default_threshold_midpoint[of "[1, 2, 3]" "[True, False, True]" "- 1" finite_exact 2 True,
      OF _ _ _ c(1,2) mid]
    default_threshold_midpoint[of "[0, 0, 1 / 4]" "[True, True, False]" "- 1" quarter_rounding
      "1 / 4" True, OF _ _ _ c(3,4) midq]
  have "fl_midpoint_of_means finite_exact [1, 2, 3] [True, False, True] = Some 2
   \<and> (\<exists>m roc.
         calculateConfusionMatrix [1, 2, 3] [True, False, True] 2 = Some (1, 0, 1, 1)
         \<and> calculateMetrics (1, 0, 1, 1) = Some m
         \<and> evaluateAlgorithm_fl finite_exact True [1, 2, 3] [True, False, True] (- 1) =
             Some \<lparr>results = m(''threshold'' \<mapsto> 2, ''auc'' \<mapsto> returned roc),
                   roc_stage = Some roc, eval_cerr = []\<rparr>)
   \<and> fl_midpoint_of_means quarter_rounding [0, 0, 1 / 4] [True, True, False] = Some (1 / 4)
   \<and> (\<exists>m roc.
         calculateConfusionMatrix [0, 0, 1 / 4] [True, True, False] (1 / 4) = Some (0, 0, 1, 2)
         \<and> calculateMetrics (0, 0, 1, 2) = Some m
         \<and> evaluateAlgorithm_fl quarter_rounding True [0, 0, 1 / 4] [True, True, False] (- 1) =
             Some \<lparr>results = m(''threshold'' \<mapsto> 1 / 4, ''auc'' \<mapsto> returned roc),
                   roc_stage = Some roc, eval_cerr = []\<rparr>)"
    unfolding cm cmq by (simp add: mid midq)
  moreover have "evaluateAlgorithm_fl Some True [1, 2, 3] [True, False, True] (- 1) =
       evaluateAlgorithm True [1, 2, 3] [True, False, True] (- 1)"
    using c(1,2) by (intro evaluateAlgorithm_fl_exact) simp_all
  ultimately show ?thesis
    by simp
qed

lemma class_sums_fl_overflow:
  "INT_MAX < pc + int n \<Longrightarrow> pc \<le> INT_MAX \<Longrightarrow>
   class_sums_fl fl (replicate n s) (replicate n True) (ap, pc, an, nc) = None"
proof (induction n arbitrary: ap pc)
  case 0
  then show ?case by simp
next
  case (Suc n)
  show ?case
  proof (cases "fl (ap + s)")
    case None
    then show ?thesis by simp
  next
    case (Some a)
    show ?thesis
    proof (cases "pc < INT_MAX")
      case True
      then have "INT_MAX < (pc + 1) + int n" "pc + 1 \<le> INT_MAX"
        using Suc.prems by simp_all
      from Suc.IH[OF this, of a] show ?thesis
        using Some True by (simp add: incr_def)
    next
      case False
      then show ?thesis
        using Some by (simp add: incr_def)
    qed
  qed
qed

lemma evaluateAlgorithm_fl_overflow:
  assumes "INT_MAX < int n"
  shows "evaluateAlgorithm_fl fl file_opens (replicate n s) (replicate n True) (- 1) = None"
proof -
  have "class_sums_fl fl (replicate n s) (replicate n True) (0, 0, 0, 0) = None"
    using assms by (intro class_sums_fl_overflow) (simp_all add: INT_MAX_def)
  then have "derive_threshold_fl fl (replicate n s) (replicate n True) = None"
    by (simp add: derive_threshold_fl_def)
  moreover have "n \<noteq> 0"
    using assms by (auto simp: INT_MAX_def)
  ultimately show ?thesis
    by (simp add: evaluateAlgorithm_fl_def)
qed

lemma class_scores_replicate:
  "class_scores c (replicate n s) (replicate n l) = (if l = c then replicate n s else [])"
  by (simp add: class_scores_def)

text \<open>
  C7 as it is stated fails in two ways. With the positive scores \<open>2^1023\<close> and
  \<open>2^1023\<close> the sum of the positive scores is \<open>2^1024\<close>, which is not a finite
  \<^verbatim>\<open>double\<close>: the threshold is not a finite number, while the midpoint of the class
  means, \<open>(2^1023 + 1) / 2\<close>, is in range. With \<open>2^31\<close> samples of score 2 that are all
  positive, \<open>posCount\<close> is incremented past \<open>INT_MAX\<close>: the behaviour is undefined and
  no threshold is determined, while the midpoint of the class means is \<open>1\<close>.
\<close>

theorem default_threshold_midpoint_counterexample:
  "evaluateAlgorithm_fl finite_exact True [2 ^ 1023, 2 ^ 1023, 1] [True, True, False] (- 1) = None
   \<and> midpoint_of_means [2 ^ 1023, 2 ^ 1023, 1] [True, True, False] = (2 ^ 1023 + 1) / 2
   \<and> finite_exact ((2 ^ 1023 + 1) / 2) = Some ((2 ^ 1023 + 1) / 2)
   \<and> evaluateAlgorithm_fl finite_exact True
         (replicate 2147483648 2) (replicate 2147483648 True) (- 1) = None
   \<and> midpoint_of_means (replicate 2147483648 2) (replicate 2147483648 True) = 1"
proof -
  have "derive_threshold_fl finite_exact [2 ^ 1023, 2 ^ 1023, 1] [True, True, False] = None"
    by (simp add: derive_threshold_fl_def finite_exact_def DBL_MAX_def incr_def INT_MAX_def)
  then have 1: "evaluateAlgorithm_fl finite_exact True [2 ^ 1023, 2 ^ 1023, 1]
       [True, True, False] (- 1) = None"
    by (simp add: evaluateAlgorithm_fl_def)
  have 2: "midpoint_of_means [2 ^ 1023, 2 ^ 1023, 1] [True, True, False] = (2 ^ 1023 + 1) / 2"
    by (simp add: midpoint_of_means_def class_mean_def class_scores_def)
  have 3: "finite_exact ((2 ^ 1023 + 1) / 2) = Some ((2 ^ 1023 + 1) / 2)"
    by (simp add: finite_exact_def DBL_MAX_def)
  have 4: "evaluateAlgorithm_fl finite_exact True
         (replicate 2147483648 2) (replicate 2147483648 True) (- 1) = None"
    by (rule evaluateAlgorithm_fl_overflow) (simp add: INT_MAX_def)
  have 5: "midpoint_of_means (replicate 2147483648 2) (replicate 2147483648 True) = 1"
    by (simp add: midpoint_of_means_def class_mean_def class_scores_replicate sum_list_replicate)
  from 1 2 3 4 5 show ?thesis
    by (intro conjI)
qed

text \<open>
  C1, as the code has it. For score and label vectors of equal, positive length whose
  labels are all the same, the ROC stage writes its error line, writes no curve and
  returns \<open>0\<close>; the orchestrator does not take this for an error: it returns the full
  map, with the nine entries of the metrics, the threshold, and \<open>auc \<mapsto> 0\<close>.
\<close>

theorem degenerate_labels_outcome:
  assumes "length scores = length labels" and "scores \<noteq> []"
    and "True \<notin> set labels \<or> False \<notin> set labels"
  shows "saveRocDataToCSV file_opens scores labels =
           Some \<lparr>returned = 0, csv_rows = None, cerr = [MissingClass]\<rparr>
         \<and> (\<exists>m t. evaluateAlgorithm file_opens scores labels threshold =
                Some \<lparr>results = m(''threshold'' \<mapsto> t, ''auc'' \<mapsto> 0),
                      roc_stage = Some \<lparr>returned = 0, csv_rows = None, cerr = [MissingClass]\<rparr>,
                      eval_cerr = []\<rparr>
              \<and> dom m = {''true_positives'', ''false_positives'', ''true_negatives'',
                          ''false_negatives'', ''accuracy'', ''precision'', ''recall'',
                          ''specificity'', ''f1_score''})"
proof -
  let ?roc = "\<lparr>returned = 0, csv_rows = None, cerr = [MissingClass]\<rparr>"
  have roc: "saveRocDataToCSV file_opens scores labels = Some ?roc"
    using assms by (rule saveRoc_degenerate)
  from evaluateAlgorithm_valid[OF assms(1,2), of threshold file_opens]
  obtain t cm m roc' where
    m: "calculateMetrics cm = Some m"
    and r: "saveRocDataToCSV file_opens scores labels = Some roc'"
    and e: "evaluateAlgorithm file_opens scores labels threshold =
         Some \<lparr>results = m(''threshold'' \<mapsto> t, ''auc'' \<mapsto> returned roc'),
               roc_stage = Some roc', eval_cerr = []\<rparr>"
    by blast
  from roc r have "roc' = ?roc"
    by simp
  with e have "evaluateAlgorithm file_opens scores labels threshold =
         Some \<lparr>results = m(''threshold'' \<mapsto> t, ''auc'' \<mapsto> 0),
               roc_stage = Some ?roc, eval_cerr = []\<rparr>"
    by simp
  with roc calculateMetrics_dom[OF m] show ?thesis
    by (intro conjI exI[of _ m] exI[of _ t])
qed

theorem degenerate_labels_outcome_witness:
  "saveRocDataToCSV True [1, 2, 3] [True, True, True] =
     Some \<lparr>returned = 0, csv_rows = None, cerr = [MissingClass]\<rparr>
   \<and> (\<exists>m t. evaluateAlgorithm True [1, 2, 3] [True, True, True] (1 / 2) =
          Some \<lparr>results = m(''threshold'' \<mapsto> t, ''auc'' \<mapsto> 0),
                roc_stage = Some \<lparr>returned = 0, csv_rows = None, cerr = [MissingClass]\<rparr>,
                eval_cerr = []\<rparr>
        \<and> dom m = {''true_positives'', ''false_positives'', ''true_negatives'',
                    ''false_negatives'', ''accuracy'', ''precision'', ''recall'',
                    ''specificity'', ''f1_score''})"
  using degenerate_labels_outcome[of "[1, 2, 3]" "[True, True, True]" True "1 / 2"]
  by simp

text \<open>
  C1 as it is stated fails on three positive samples: the orchestrator returns computed
  metrics together with the \<open>0\<close> of the failed ROC stage, and no error entry.
\<close>

theorem degenerate_labels_outcome_counterexample:
  "evaluateAlgorithm True [1, 2, 3] [True, True, True] (1 / 2) =
     Some \<lparr>results = [''true_positives'' \<mapsto> 3, ''false_positives'' \<mapsto> 0,
                      ''true_negatives'' \<mapsto> 0, ''false_negatives'' \<mapsto> 0,
                      ''accuracy'' \<mapsto> 1, ''precision'' \<mapsto> 1, ''recall'' \<mapsto> 1,
                      ''specificity'' \<mapsto> 0, ''f1_score'' \<mapsto> 1,
                      ''threshold'' \<mapsto> 1 / 2, ''auc'' \<mapsto> 0],
           roc_stage = Some \<lparr>returned = 0, csv_rows = None, cerr = [MissingClass]\<rparr>,
           eval_cerr = []\<rparr>"
  by (simp add: evaluateAlgorithm_def calculateConfusionMatrix_def tally_def calculateMetrics_def
      int_add_def wrap32_def roc_eval)

end
